theory Spec2Isabelle
  imports Main "HOL-Library.AList" "HOL-Library.Char_ord" "HOL-Library.List_Lexorder"
    "HOL-Library.Sublist"
begin

section \<open>Shared vocabulary\<close>

text \<open>
  Document names, paths and every other piece of text of \<^verbatim>\<open>sentryext.py\<close> are
  strings. A Python \<^verbatim>\<open>dict\<close> whose items are iterated is an association list
  (the list order is the iteration order, which Python leaves unspecified, so every theorem
  below holds for any order); \<^verbatim>\<open>d.get(k)\<close> is \<^const>\<open>map_of\<close>. A Python dict has
  no two items with the same key, which is the hypothesis \<open>distinct (map fst d)\<close> where a
  theorem needs it. A Python \<^verbatim>\<open>set\<close> is a HOL set.
\<close>

type_synonym docname = string

type_synonym referenced_docs = "(docname \<times> docname set) list"

section \<open>The reference-tracking map: \<^verbatim>\<open>purge_info\<close>\<close>

text \<open>
  \<^verbatim>\<open>
  def purge_info(app, env, docname):
      if not hasattr(env, 'sentry_referenced_docs'):
          return
      to_delete = []
      for key, docs in env.sentry_referenced_docs.items():
          if docname in docs:
              docs.discard(docname)
          if not docs:
              to_delete.append(key)
      for key in to_delete:
          env.sentry_referenced_docs.pop(key, None)
  \<close>
  \<^verbatim>\<open>items()\<close> is a list of the pairs taken before the loop (Python 2), each holding
  the set object the dict holds: \<^verbatim>\<open>discard\<close> changes the set in place, which the
  model writes back under the key. The environment attribute that may be missing is an
  \<open>option\<close>.
\<close>

fun purge_scan ::
  "docname \<Rightarrow> referenced_docs \<Rightarrow> referenced_docs \<Rightarrow> docname list \<Rightarrow> referenced_docs \<times> docname list"
where
  "purge_scan docname [] d to_delete = (d, to_delete)"
| "purge_scan docname ((key, docs) # items) d to_delete =
     (let docs' = (if docname \<in> docs then docs - {docname} else docs);
          d' = AList.update key docs' d;
          to_delete' = (if docs' = {} then to_delete @ [key] else to_delete)
      in purge_scan docname items d' to_delete')"

fun purge_pop :: "docname list \<Rightarrow> referenced_docs \<Rightarrow> referenced_docs" where
  "purge_pop [] d = d"
| "purge_pop (key # to_delete) d = purge_pop to_delete (AList.delete key d)"

definition purge_info :: "referenced_docs option \<Rightarrow> docname \<Rightarrow> referenced_docs option" where
  "purge_info sentry_referenced_docs docname =
     (case sentry_referenced_docs of
        None \<Rightarrow> None
      | Some d \<Rightarrow>
          (case purge_scan docname d d [] of
             (d', to_delete) \<Rightarrow> Some (purge_pop to_delete d')))"

subsection \<open>What the two loops compute\<close>

lemma purge_scan_map:
  "distinct (map fst items) \<Longrightarrow>
   map_of (fst (purge_scan docname items d to_delete)) k =
     (case map_of items k of
        None \<Rightarrow> map_of d k
      | Some docs \<Rightarrow> Some (docs - {docname}))"
proof (induction items arbitrary: d to_delete)
  case Nil
  then show ?case by simp
next
  case (Cons item items)
  obtain key docs where item: "item = (key, docs)" by (cases item)
  from Cons.prems item have fresh: "map_of items key = None"
    by (simp add: map_of_eq_None_iff)
  from Cons.prems have dist: "distinct (map fst items)" by simp
  show ?case
    using Cons.IH [OF dist] fresh item
    by (auto simp: Let_def update_conv' split: option.splits)
qed

lemma purge_scan_keys:
  "set (snd (purge_scan docname items d to_delete)) =
     set to_delete \<union> {key. \<exists>docs. (key, docs) \<in> set items \<and> docs - {docname} = {}}"
proof (induction items arbitrary: d to_delete)
  case Nil
  then show ?case by simp
next
  case (Cons item items)
  obtain key docs where item: "item = (key, docs)" by (cases item)
  show ?case
    unfolding item purge_scan.simps Let_def Cons.IH
    by auto
qed

lemma purge_scan_distinct:
  "distinct (map fst d) \<Longrightarrow> distinct (map fst (fst (purge_scan docname items d to_delete)))"
  by (induction items arbitrary: d to_delete) (auto simp: Let_def distinct_update)

lemma purge_pop_map:
  "map_of (purge_pop to_delete d) k = (if k \<in> set to_delete then None else map_of d k)"
  by (induction to_delete arbitrary: d) (auto simp: delete_conv')

lemma purge_pop_distinct:
  "distinct (map fst d) \<Longrightarrow> distinct (map fst (purge_pop to_delete d))"
  by (induction to_delete arbitrary: d) (auto simp: distinct_delete)

lemma purge_info_lookup:
  assumes "distinct (map fst d)"
    and "purge_info (Some d) docname = Some d'"
  shows "map_of d' k =
     (case map_of d k of
        None \<Rightarrow> None
      | Some docs \<Rightarrow> if docs - {docname} = {} then None else Some (docs - {docname}))"
proof -
  obtain d1 td where scan: "purge_scan docname d d [] = (d1, td)"
    by (cases "purge_scan docname d d []")
  with assms(2) have d': "d' = purge_pop td d1"
    by (simp add: purge_info_def)
  have m1: "map_of d1 k = (case map_of d k of None \<Rightarrow> None | Some docs \<Rightarrow> Some (docs - {docname}))"
    using purge_scan_map [OF assms(1), of docname d "[]" k] scan
    by (simp split: option.splits)
  have td: "set td = {key. \<exists>docs. (key, docs) \<in> set d \<and> docs - {docname} = {}}"
    using purge_scan_keys [of docname d d "[]"] scan by simp
  have mem: "k \<in> set td \<longleftrightarrow> (\<exists>docs. map_of d k = Some docs \<and> docs - {docname} = {})"
    unfolding td using assms(1) by (auto dest: map_of_SomeD)
  show ?thesis
    unfolding d' purge_pop_map m1 using mem
    by (auto split: option.splits)
qed

text \<open>
  C10. After \<^verbatim>\<open>purge_info(app, env, docname)\<close> on an environment that has the
  reference-tracking map: the purged name is a member of no set of the map, every set that
  remains is non-empty, the keys that remain are exactly those whose set is non-empty once
  the name is discarded, each of them holds its former set without the name (so a set that
  did not contain the name is unchanged), and the keys are still distinct.
\<close>

theorem purge_info_invariant:
  assumes "distinct (map fst d)"
  shows "\<exists>d'. purge_info (Some d) docname = Some d' \<and>
           distinct (map fst d') \<and>
           (\<forall>key docs. map_of d' key = Some docs \<longrightarrow> docname \<notin> docs \<and> docs \<noteq> {}) \<and>
           (\<forall>key docs. map_of d' key = Some docs \<longleftrightarrow>
               (\<exists>old. map_of d key = Some old \<and> docs = old - {docname} \<and> docs \<noteq> {})) \<and>
           (\<forall>key old. map_of d key = Some old \<and> docname \<notin> old \<and> old \<noteq> {} \<longrightarrow>
               map_of d' key = Some old)"
proof -
  obtain d1 td where scan: "purge_scan docname d d [] = (d1, td)"
    by (cases "purge_scan docname d d []")
  define d' where "d' = purge_pop td d1"
  have run: "purge_info (Some d) docname = Some d'"
    by (simp add: purge_info_def scan d'_def)
  have dist: "distinct (map fst d')"
    unfolding d'_def
    using purge_pop_distinct [OF purge_scan_distinct [OF assms, of docname d "[]"]] scan
    by simp
  note look = purge_info_lookup [OF assms run]
  have a: "\<forall>key docs. map_of d' key = Some docs \<longrightarrow> docname \<notin> docs \<and> docs \<noteq> {}"
    by (auto simp: look split: option.splits if_splits)
  have b: "\<forall>key docs. map_of d' key = Some docs \<longleftrightarrow>
             (\<exists>old. map_of d key = Some old \<and> docs = old - {docname} \<and> docs \<noteq> {})"
    by (auto simp: look split: option.splits if_splits)
  have c: "\<forall>key old. map_of d key = Some old \<and> docname \<notin> old \<and> old \<noteq> {} \<longrightarrow>
             map_of d' key = Some old"
    by (auto simp: look split: option.splits if_splits)
  from run dist a b c show ?thesis by blast
qed

theorem purge_info_invariant_witness:
  "distinct (map fst [(''a'', {''x'', ''y''}), (''b'', {''x''}), (''c'', {''z''})]) \<and>
   purge_info (Some [(''a'', {''x'', ''y''}), (''b'', {''x''}), (''c'', {''z''})]) ''x''
     = Some [(''a'', {''y''}), (''c'', {''z''})] \<and>
   map_of [(''a'', {''y''}), (''c'', {''z''})] ''b'' = None \<and>
   ''x'' \<notin> {''y''} \<and> ''x'' \<notin> {''z''}"
proof -
  let ?d = "[(''a'', {''x'', ''y''}), (''b'', {''x''}), (''c'', {''z''})]"
  have dist: "distinct (map fst ?d)" by simp
  have run: "purge_info (Some ?d) ''x'' = Some [(''a'', {''y''}), (''c'', {''z''})]"
    by (simp add: purge_info_def Let_def insert_Diff_if)
  note inv = purge_info_invariant [OF dist, of "''x''"]
  from inv obtain d' where
    d': "purge_info (Some ?d) ''x'' = Some d'"
    and clean: "\<forall>key docs. map_of d' key = Some docs \<longrightarrow> ''x'' \<notin> docs \<and> docs \<noteq> {}"
    by (elim exE conjE)
  from d' run have eq: "d' = [(''a'', {''y''}), (''c'', {''z''})]" by simp
  from clean [rule_format, of "''a''" "{''y''}"] eq have a: "''x'' \<notin> {''y''}" by simp
  from clean [rule_format, of "''c''" "{''z''}"] eq have c: "''x'' \<notin> {''z''}" by simp
  from dist run a c show ?thesis by simp
qed

section \<open>Orphan pruning: \<^verbatim>\<open>is_referenced\<close> and \<^verbatim>\<open>write_doc\<close>\<close>

text \<open>
  \<^verbatim>\<open>
  def is_referenced(docname, references):
      if docname == 'index':
          return True
      seen = set([docname])
      to_process = set(references.get(docname) or ())
      while to_process:
          if 'index' in to_process:
              return True
          next = to_process.pop()
          seen.add(next)
          for backlink in references.get(next) or ():
              if backlink in seen:
                  continue
              else:
                  to_process.add(backlink)
      return False
  \<close>
  \<^verbatim>\<open>to_process.pop()\<close> removes and returns an element of the set that Python does not
  specify. The model takes the choice as a parameter \<open>pop\<close>, a function of the set; the
  theorems hold for every \<open>pop\<close> that returns a member of a non-empty finite set. (The sets
  that one run pops from are pairwise different, so every run of the Python loop is the
  run of the model for some such function.) The loop is a \<open>partial_function\<close>: that it
  returns is part of what is proved.
\<close>

definition index_doc :: docname where
  "index_doc = ''index''"

definition referenced_by :: "referenced_docs \<Rightarrow> docname \<Rightarrow> docname set" where
  "referenced_by references d = (case map_of references d of None \<Rightarrow> {} | Some docs \<Rightarrow> docs)"

partial_function (option) is_referenced_loop ::
  "(docname set \<Rightarrow> docname) \<Rightarrow> referenced_docs \<Rightarrow> docname set \<Rightarrow> docname set \<Rightarrow> bool option"
where
  "is_referenced_loop pop references seen to_process =
     (if to_process = {} then Some False
      else if index_doc \<in> to_process then Some True
      else
        let nxt = pop to_process;
            to_process1 = to_process - {nxt};
            seen1 = insert nxt seen;
            to_process2 = to_process1 \<union> {backlink \<in> referenced_by references nxt. backlink \<notin> seen1}
        in is_referenced_loop pop references seen1 to_process2)"

definition is_referenced :: "(docname set \<Rightarrow> docname) \<Rightarrow> docname \<Rightarrow> referenced_docs \<Rightarrow> bool option" where
  "is_referenced pop docname references =
     (if docname = index_doc then Some True
      else is_referenced_loop pop references {docname} (referenced_by references docname))"

text \<open>
  The chain of the specification: each next element is a member of the reference set of
  the previous one.
\<close>

fun reference_chain :: "referenced_docs \<Rightarrow> docname list \<Rightarrow> bool" where
  "reference_chain references [] = True"
| "reference_chain references [d] = True"
| "reference_chain references (d # e # ds) =
     (e \<in> referenced_by references d \<and> reference_chain references (e # ds))"

definition reaches_index :: "referenced_docs \<Rightarrow> docname \<Rightarrow> bool" where
  "reaches_index references docname \<longleftrightarrow>
     (\<exists>ds. ds \<noteq> [] \<and> last ds = index_doc \<and> reference_chain references (docname # ds))"

definition reference_edges :: "referenced_docs \<Rightarrow> (docname \<times> docname) set" where
  "reference_edges references = {(d, e). e \<in> referenced_by references d}"

lemma chain_imp_trancl:
  "ds \<noteq> [] \<Longrightarrow> reference_chain references (d # ds) \<Longrightarrow>
   (d, last ds) \<in> (reference_edges references)\<^sup>+"
proof (induction ds arbitrary: d)
  case Nil
  then show ?case by simp
next
  case (Cons e ds)
  from Cons.prems have edge: "(d, e) \<in> reference_edges references"
    by (simp add: reference_edges_def)
  show ?case
  proof (cases ds)
    case Nil
    with edge show ?thesis by auto
  next
    case (Cons f fs)
    with Cons.prems Cons.IH [of e] have "(e, last ds) \<in> (reference_edges references)\<^sup>+"
      by simp
    with edge Cons show ?thesis by (auto intro: trancl_into_trancl2)
  qed
qed

lemma trancl_imp_chain:
  "(d, e) \<in> (reference_edges references)\<^sup>+ \<Longrightarrow>
   \<exists>ds. ds \<noteq> [] \<and> last ds = e \<and> reference_chain references (d # ds)"
proof (induction rule: converse_trancl_induct)
  case (base d)
  then have "reference_chain references (d # [e])"
    by (simp add: reference_edges_def)
  then show ?case by (intro exI [of _ "[e]"]) simp
next
  case (step d f)
  then obtain ds where ds: "ds \<noteq> []" "last ds = e" "reference_chain references (f # ds)"
    by blast
  from step.hyps(1) ds have "reference_chain references (d # f # ds)"
    by (simp add: reference_edges_def)
  with ds show ?case by (intro exI [of _ "f # ds"]) simp
qed

lemma reaches_index_trancl:
  "reaches_index references docname \<longleftrightarrow> (docname, index_doc) \<in> (reference_edges references)\<^sup>+"
proof
  assume "reaches_index references docname"
  then obtain ds where ds: "ds \<noteq> []" "last ds = index_doc"
      "reference_chain references (docname # ds)"
    unfolding reaches_index_def by (elim exE conjE)
  from chain_imp_trancl [OF ds(1) ds(3)] ds(2)
  show "(docname, index_doc) \<in> (reference_edges references)\<^sup>+" by simp
next
  assume "(docname, index_doc) \<in> (reference_edges references)\<^sup>+"
  from trancl_imp_chain [OF this] show "reaches_index references docname"
    unfolding reaches_index_def .
qed

lemma referenced_by_in_values:
  "e \<in> referenced_by references d \<Longrightarrow> \<exists>docs. (d, docs) \<in> set references \<and> e \<in> docs"
  by (auto simp: referenced_by_def split: option.splits dest: map_of_SomeD)

lemma finite_referenced_by:
  "\<forall>(key, docs) \<in> set references. finite docs \<Longrightarrow> finite (referenced_by references d)"
  by (auto simp: referenced_by_def split: option.splits dest!: map_of_SomeD)

lemma finite_reachable:
  assumes "\<forall>(key, docs) \<in> set references. finite docs"
  shows "finite ((reference_edges references)\<^sup>+ `` {d})"
proof -
  have "(reference_edges references)\<^sup>+ `` {d} \<subseteq> \<Union> (snd ` set references)"
  proof
    fix e assume "e \<in> (reference_edges references)\<^sup>+ `` {d}"
    then have "(d, e) \<in> (reference_edges references)\<^sup>+" by simp
    then obtain f where "(f, e) \<in> reference_edges references"
      by (auto elim: tranclE)
    then have "e \<in> referenced_by references f" by (simp add: reference_edges_def)
    from referenced_by_in_values [OF this] show "e \<in> \<Union> (snd ` set references)"
      by force
  qed
  moreover from assms have "finite (\<Union> (snd ` set references))" by auto
  ultimately show ?thesis by (rule finite_subset)
qed

lemma is_referenced_loop_correct:
  assumes pop: "\<forall>S. finite S \<and> S \<noteq> {} \<longrightarrow> pop S \<in> S"
    and fin: "\<forall>(key, docs) \<in> set references. finite docs"
    and start: "docname \<in> seen" "index_doc \<notin> seen"
    and todo: "finite to_process" "to_process \<subseteq> (reference_edges references)\<^sup>+ `` {docname}"
    and sound: "seen \<subseteq> insert docname ((reference_edges references)\<^sup>+ `` {docname})"
    and closed: "\<forall>d \<in> seen. referenced_by references d \<subseteq> seen \<union> to_process"
  shows "is_referenced_loop pop references seen to_process =
           Some ((docname, index_doc) \<in> (reference_edges references)\<^sup>+)"
  using start todo sound closed
proof (induction "card ((reference_edges references)\<^sup>+ `` {docname} - seen) + card (to_process \<inter> seen)"
    arbitrary: seen to_process rule: less_induct)
  case less
  let ?R = "(reference_edges references)\<^sup>+ `` {docname}"
  have finR: "finite ?R" by (rule finite_reachable [OF fin])
  show ?case
  proof (cases "to_process = {}")
    case True
    have "?R \<subseteq> seen"
    proof
      fix e assume "e \<in> ?R"
      then have "(docname, e) \<in> (reference_edges references)\<^sup>+" by simp
      then show "e \<in> seen"
      proof (induction rule: trancl_induct)
        case (base y)
        with less.prems(1,6) True show ?case by (auto simp: reference_edges_def)
      next
        case (step y z)
        with less.prems(6) True show ?case by (auto simp: reference_edges_def)
      qed
    qed
    with less.prems(2) have "(docname, index_doc) \<notin> (reference_edges references)\<^sup>+" by auto
    with True show ?thesis by (subst is_referenced_loop.simps) simp
  next
    case False
    show ?thesis
    proof (cases "index_doc \<in> to_process")
      case True
      with less.prems(4) have "(docname, index_doc) \<in> (reference_edges references)\<^sup>+" by auto
      with True False show ?thesis by (subst is_referenced_loop.simps) simp
    next
      case noindex: False
      define nxt where "nxt = pop to_process"
      define seen1 where "seen1 = insert nxt seen"
      define todo2 where
        "todo2 = (to_process - {nxt}) \<union> {backlink \<in> referenced_by references nxt. backlink \<notin> seen1}"
      from pop less.prems(3) False have nxt_in: "nxt \<in> to_process" by (simp add: nxt_def)
      with noindex have nxt_ne: "nxt \<noteq> index_doc" by auto
      from nxt_in less.prems(4) have nxt_R: "nxt \<in> ?R" by auto
      have succ_R: "referenced_by references nxt \<subseteq> ?R"
      proof
        fix e assume "e \<in> referenced_by references nxt"
        then have "(nxt, e) \<in> reference_edges references" by (simp add: reference_edges_def)
        with nxt_R show "e \<in> ?R" by (auto intro: trancl_into_trancl)
      qed
      have p1: "docname \<in> seen1" using less.prems(1) by (simp add: seen1_def)
      have p2: "index_doc \<notin> seen1" using less.prems(2) nxt_ne by (simp add: seen1_def)
      have p3: "finite todo2"
        using less.prems(3) finite_referenced_by [OF fin, of nxt] by (simp add: todo2_def)
      have p4: "todo2 \<subseteq> ?R" using less.prems(4) succ_R by (auto simp: todo2_def)
      have p5: "seen1 \<subseteq> insert docname ?R" using less.prems(5) nxt_R by (auto simp: seen1_def)
      have p6: "\<forall>d \<in> seen1. referenced_by references d \<subseteq> seen1 \<union> todo2"
        using less.prems(6) by (auto simp: seen1_def todo2_def)
      have decr: "card (?R - seen1) + card (todo2 \<inter> seen1)
                    < card (?R - seen) + card (to_process \<inter> seen)"
      proof (cases "nxt \<in> seen")
        case True
        then have s: "seen1 = seen" by (auto simp: seen1_def)
        have "todo2 \<inter> seen1 = (to_process \<inter> seen) - {nxt}"
          unfolding s by (auto simp: todo2_def s)
        moreover have "card ((to_process \<inter> seen) - {nxt}) < card (to_process \<inter> seen)"
        proof (rule card_Diff1_less)
          show "finite (to_process \<inter> seen)" using less.prems(3) by simp
          show "nxt \<in> to_process \<inter> seen" using True nxt_in by simp
        qed
        ultimately have "card (todo2 \<inter> seen1) < card (to_process \<inter> seen)"
          by simp
        with s show ?thesis by simp
      next
        case False
        have "todo2 \<inter> seen1 = to_process \<inter> seen"
          using False by (auto simp: todo2_def seen1_def)
        moreover have "?R - seen1 = (?R - seen) - {nxt}" by (auto simp: seen1_def)
        moreover have "card ((?R - seen) - {nxt}) < card (?R - seen)"
        proof (rule card_Diff1_less)
          show "finite (?R - seen)" using finR by simp
          show "nxt \<in> ?R - seen" using False nxt_R by simp
        qed
        ultimately show ?thesis by simp
      qed
      have "is_referenced_loop pop references seen1 todo2 =
              Some ((docname, index_doc) \<in> (reference_edges references)\<^sup>+)"
        by (rule less.hyps [OF decr p1 p2 p3 p4 p5 p6])
      with False noindex show ?thesis
        by (subst is_referenced_loop.simps) (simp add: Let_def nxt_def seen1_def todo2_def)
    qed
  qed
qed

lemma is_referenced_correct:
  assumes pop: "\<forall>S. finite S \<and> S \<noteq> {} \<longrightarrow> pop S \<in> S"
    and fin: "\<forall>(key, docs) \<in> set references. finite docs"
  shows "is_referenced pop docname references =
           Some (docname = index_doc \<or> reaches_index references docname)"
proof (cases "docname = index_doc")
  case True
  then show ?thesis by (simp add: is_referenced_def)
next
  case False
  have "is_referenced_loop pop references {docname} (referenced_by references docname) =
          Some ((docname, index_doc) \<in> (reference_edges references)\<^sup>+)"
  proof (rule is_referenced_loop_correct [OF pop fin])
    show "docname \<in> {docname}" by simp
    show "index_doc \<notin> {docname}" using False by simp
    show "finite (referenced_by references docname)" by (rule finite_referenced_by [OF fin])
    show "referenced_by references docname \<subseteq> (reference_edges references)\<^sup>+ `` {docname}"
      by (auto simp: reference_edges_def)
    show "{docname} \<subseteq> insert docname ((reference_edges references)\<^sup>+ `` {docname})" by simp
    show "\<forall>d \<in> {docname}. referenced_by references d \<subseteq> {docname} \<union> referenced_by references docname"
      by auto
  qed
  with False show ?thesis by (simp add: is_referenced_def reaches_index_trancl)
qed


subsection \<open>\<^verbatim>\<open>SphinxBuilderMixin.write_doc\<close>\<close>

text \<open>
  \<^verbatim>\<open>
  def write_doc(self, docname, doctree):
      original_field_limit = self.docsettings.field_name_limit
      try:
          self.docsettings.field_name_limit = 120
          if is_referenced(docname, self.app.env.sentry_referenced_docs):
              return super(SphinxBuilderMixin, self).write_doc(docname, doctree)
          else:
              self.app.info('skipping because unreferenced')
      finally:
          self.docsettings.field_name_limit = original_field_limit
  \<close>
  The builder is a record of the fields this method reads and writes; what the host
  framework keeps besides is the record's extension. The host's \<^verbatim>\<open>write_doc\<close>, which
  writes the document to the output directory, is the parameter \<open>super_write_doc\<close>: it
  takes the builder and gives back the builder it leaves behind together with either the
  exception it raised (\<open>Inl\<close>) or the value it returned (\<open>Inr\<close>). The \<^verbatim>\<open>finally\<close> clause
  runs on both. The result is \<open>None\<close> when \<^verbatim>\<open>is_referenced\<close> does not return.
\<close>

record builder =
  field_name_limit :: int
  sentry_referenced_docs :: referenced_docs
  info_log :: "string list"

definition write_doc ::
  "(docname set \<Rightarrow> docname) \<Rightarrow>
   (docname \<Rightarrow> 'doctree \<Rightarrow> 'h builder_scheme \<Rightarrow> ('e + 'r) \<times> 'h builder_scheme) \<Rightarrow>
   docname \<Rightarrow> 'doctree \<Rightarrow> 'h builder_scheme \<Rightarrow> (('e + 'r option) \<times> 'h builder_scheme) option"
where
  "write_doc pop super_write_doc docname doctree self =
     (let original_field_limit = field_name_limit self;
          self1 = self\<lparr>field_name_limit := 120\<rparr>
      in case is_referenced pop docname (sentry_referenced_docs self1) of
           None \<Rightarrow> None
         | Some True \<Rightarrow>
             (case super_write_doc docname doctree self1 of
                (Inl exn, self2) \<Rightarrow> Some (Inl exn, self2\<lparr>field_name_limit := original_field_limit\<rparr>)
              | (Inr v, self2) \<Rightarrow> Some (Inr (Some v), self2\<lparr>field_name_limit := original_field_limit\<rparr>))
         | Some False \<Rightarrow>
             (let self2 = self1\<lparr>info_log := info_log self1 @ [''skipping because unreferenced'']\<rparr>
              in Some (Inr None, self2\<lparr>field_name_limit := original_field_limit\<rparr>)))"

lemma write_doc_referenced:
  assumes "is_referenced pop docname (sentry_referenced_docs self) = Some True"
  shows "write_doc pop super_write_doc docname doctree self =
           Some (map_sum id Some (fst (super_write_doc docname doctree (self\<lparr>field_name_limit := 120\<rparr>))),
                 (snd (super_write_doc docname doctree (self\<lparr>field_name_limit := 120\<rparr>)))
                   \<lparr>field_name_limit := field_name_limit self\<rparr>)"
  using assms
  by (simp add: write_doc_def Let_def split: prod.splits sum.splits)

lemma write_doc_unreferenced:
  assumes "is_referenced pop docname (sentry_referenced_docs self) = Some False"
  shows "write_doc pop super_write_doc docname doctree self =
           Some (Inr None, self\<lparr>info_log := info_log self @ [''skipping because unreferenced'']\<rparr>)"
  using assms
  by (simp add: write_doc_def Let_def)

lemma write_doc_limit:
  "write_doc pop super_write_doc docname doctree self = Some (res, self') \<Longrightarrow>
   field_name_limit self' = field_name_limit self"
  by (auto simp: write_doc_def Let_def split: option.splits bool.splits prod.splits sum.splits)


text \<open>
  C3. \<^verbatim>\<open>is_referenced(docname, references)\<close> returns, and it returns True if and only
  if the name is \<^verbatim>\<open>'index'\<close> or a finite chain leads from it to \<^verbatim>\<open>'index'\<close>, each
  next element a member of the reference set of the previous one; \<^verbatim>\<open>write_doc\<close> hands
  the document to the host's writer exactly in that case, and otherwise only logs that it
  skips it, leaving the rest of the builder as it was.
\<close>

theorem is_referenced_iff_chain_to_index:
  assumes "\<forall>S. finite S \<and> S \<noteq> {} \<longrightarrow> pop S \<in> S"
    and "\<forall>(key, docs) \<in> set (sentry_referenced_docs self). finite docs"
  shows "is_referenced pop docname (sentry_referenced_docs self) =
           Some (docname = index_doc \<or> reaches_index (sentry_referenced_docs self) docname) \<and>
         write_doc pop super_write_doc docname doctree self =
           Some (if docname = index_doc \<or> reaches_index (sentry_referenced_docs self) docname
                 then (map_sum id Some (fst (super_write_doc docname doctree (self\<lparr>field_name_limit := 120\<rparr>))),
                       (snd (super_write_doc docname doctree (self\<lparr>field_name_limit := 120\<rparr>)))
                         \<lparr>field_name_limit := field_name_limit self\<rparr>)
                 else (Inr None, self\<lparr>info_log := info_log self @ [''skipping because unreferenced'']\<rparr>))"
proof -
  note r = is_referenced_correct [OF assms, of docname]
  show ?thesis
  proof (cases "docname = index_doc \<or> reaches_index (sentry_referenced_docs self) docname")
    case True
    with r have "is_referenced pop docname (sentry_referenced_docs self) = Some True" by simp
    from write_doc_referenced [OF this] r True show ?thesis by simp
  next
    case False
    with r have "is_referenced pop docname (sentry_referenced_docs self) = Some False" by simp
    from write_doc_unreferenced [OF this] r False show ?thesis by simp
  qed
qed

theorem is_referenced_iff_chain_to_index_witness:
  "is_referenced Min ''a'' [(''a'', {''b''}), (''b'', {''index''}), (''c'', {''c''})] = Some True \<and>
   reaches_index [(''a'', {''b''}), (''b'', {''index''}), (''c'', {''c''})] ''a'' \<and>
   write_doc Min (\<lambda>d t b. (Inr d :: string + string, b\<lparr>info_log := info_log b @ [d]\<rparr>)) ''a'' ()
       \<lparr>field_name_limit = 30,
        sentry_referenced_docs = [(''a'', {''b''}), (''b'', {''index''}), (''c'', {''c''})],
        info_log = []\<rparr> =
     Some (Inr (Some ''a''),
       \<lparr>field_name_limit = 30,
        sentry_referenced_docs = [(''a'', {''b''}), (''b'', {''index''}), (''c'', {''c''})],
        info_log = [''a'']\<rparr>) \<and>
   is_referenced Min ''c'' [(''a'', {''b''}), (''b'', {''index''}), (''c'', {''c''})] = Some False \<and>
   \<not> reaches_index [(''a'', {''b''}), (''b'', {''index''}), (''c'', {''c''})] ''c'' \<and>
   write_doc Min (\<lambda>d t b. (Inr d :: string + string, b\<lparr>info_log := info_log b @ [d]\<rparr>)) ''c'' ()
       \<lparr>field_name_limit = 30,
        sentry_referenced_docs = [(''a'', {''b''}), (''b'', {''index''}), (''c'', {''c''})],
        info_log = []\<rparr> =
     Some (Inr None,
       \<lparr>field_name_limit = 30,
        sentry_referenced_docs = [(''a'', {''b''}), (''b'', {''index''}), (''c'', {''c''})],
        info_log = [''skipping because unreferenced'']\<rparr>)"
proof -
  let ?refs = "[(''a'', {''b''}), (''b'', {''index''}), (''c'', {''c''})]"
  let ?self = "\<lparr>field_name_limit = 30, sentry_referenced_docs = ?refs, info_log = []\<rparr>"
  let ?super = "\<lambda>d (t::unit) b. (Inr d :: string + string, b\<lparr>info_log := info_log b @ [d]\<rparr>)"
  have pop: "\<forall>S::string set. finite S \<and> S \<noteq> {} \<longrightarrow> Min S \<in> S"
    by (simp add: Min_in)
  have fin: "\<forall>(key, docs) \<in> set (sentry_referenced_docs ?self). finite docs"
    by simp
  have ea: "is_referenced Min ''a'' ?refs = Some True"
    by (simp add: is_referenced_def index_doc_def referenced_by_def is_referenced_loop.simps)
  have ec: "is_referenced Min ''c'' ?refs = Some False"
    by (simp add: is_referenced_def index_doc_def referenced_by_def is_referenced_loop.simps)
  note ta = is_referenced_iff_chain_to_index [OF pop fin, of "''a''" ?super "()"]
  note tc = is_referenced_iff_chain_to_index [OF pop fin, of "''c''" ?super "()"]
  have na: "''a'' \<noteq> index_doc" and nc: "''c'' \<noteq> index_doc"
    by (simp_all add: index_doc_def)
  from ta ea na have ra: "reaches_index ?refs ''a''" by simp
  from tc ec nc have rc: "\<not> reaches_index ?refs ''c''" by simp
  from ta ra have wa: "write_doc Min ?super ''a'' () ?self =
      Some (Inr (Some ''a''), \<lparr>field_name_limit = 30, sentry_referenced_docs = ?refs, info_log = [''a'']\<rparr>)"
    by simp
  from tc rc nc have wc: "write_doc Min ?super ''c'' () ?self =
      Some (Inr None, \<lparr>field_name_limit = 30, sentry_referenced_docs = ?refs,
        info_log = [''skipping because unreferenced'']\<rparr>)"
    by simp
  from ea ra wa ec rc wc show ?thesis by simp
qed

text \<open>
  C9. \<^verbatim>\<open>write_doc\<close> returns, and whichever way it ends (the host's writer returned,
  the host's writer raised, or the document was skipped as unreferenced) the builder's
  \<^verbatim>\<open>field_name_limit\<close> is again what it was before the call; the host's writer runs on a
  builder whose limit is 120.
\<close>

theorem write_doc_restores_field_name_limit:
  assumes "\<forall>S. finite S \<and> S \<noteq> {} \<longrightarrow> pop S \<in> S"
    and "\<forall>(key, docs) \<in> set (sentry_referenced_docs self). finite docs"
  shows "\<exists>res self'.
           write_doc pop super_write_doc docname doctree self = Some (res, self') \<and>
           field_name_limit self' = field_name_limit self \<and>
           (is_referenced pop docname (sentry_referenced_docs self) = Some True \<longrightarrow>
              self' = (snd (super_write_doc docname doctree (self\<lparr>field_name_limit := 120\<rparr>)))
                        \<lparr>field_name_limit := field_name_limit self\<rparr>)"
proof -
  note r = is_referenced_correct [OF assms, of docname]
  show ?thesis
  proof (cases "docname = index_doc \<or> reaches_index (sentry_referenced_docs self) docname")
    case True
    with r have t: "is_referenced pop docname (sentry_referenced_docs self) = Some True" by simp
    from write_doc_referenced [OF t, of super_write_doc doctree] show ?thesis by simp
  next
    case False
    with r have f: "is_referenced pop docname (sentry_referenced_docs self) = Some False" by simp
    from write_doc_unreferenced [OF f, of super_write_doc doctree] f show ?thesis by simp
  qed
qed

theorem write_doc_restores_field_name_limit_witness:
  "write_doc Min
       (\<lambda>d t b. (Inl ''IOError'' :: string + unit, b\<lparr>field_name_limit := field_name_limit b + 1\<rparr>))
       ''a'' ()
       \<lparr>field_name_limit = 30, sentry_referenced_docs = [(''a'', {''index''})], info_log = []\<rparr> =
     Some (Inl ''IOError'',
       \<lparr>field_name_limit = 30, sentry_referenced_docs = [(''a'', {''index''})], info_log = []\<rparr>) \<and>
   snd ((\<lambda>d (t::unit) b. (Inl ''IOError'' :: string + unit, b\<lparr>field_name_limit := field_name_limit b + 1\<rparr>))
       ''a'' ()
       (\<lparr>field_name_limit = 30, sentry_referenced_docs = [(''a'', {''index''})], info_log = []\<rparr>
          \<lparr>field_name_limit := 120\<rparr>)) =
     \<lparr>field_name_limit = 121, sentry_referenced_docs = [(''a'', {''index''})], info_log = []\<rparr>"
proof -
  let ?refs = "[(''a'', {''index''})]"
  let ?self = "\<lparr>field_name_limit = 30, sentry_referenced_docs = ?refs, info_log = []\<rparr>"
  let ?super = "\<lambda>d (t::unit) b. (Inl ''IOError'' :: string + unit,
                   b\<lparr>field_name_limit := field_name_limit b + 1\<rparr>)"
  have pop: "\<forall>S::string set. finite S \<and> S \<noteq> {} \<longrightarrow> Min S \<in> S"
    by (simp add: Min_in)
  have fin: "\<forall>(key, docs) \<in> set (sentry_referenced_docs ?self). finite docs"
    by simp
  have ea: "is_referenced Min ''a'' (sentry_referenced_docs ?self) = Some True"
    by (simp add: is_referenced_def index_doc_def referenced_by_def is_referenced_loop.simps)
  from write_doc_restores_field_name_limit [OF pop fin, of ?super "''a''" "()"]
  obtain res self' where
    run: "write_doc Min ?super ''a'' () ?self = Some (res, self')"
    and lim: "field_name_limit self' = field_name_limit ?self"
    and host: "is_referenced Min ''a'' (sentry_referenced_docs ?self) = Some True \<longrightarrow>
               self' = (snd (?super ''a'' () (?self\<lparr>field_name_limit := 120\<rparr>)))
                         \<lparr>field_name_limit := field_name_limit ?self\<rparr>"
    by (elim exE conjE)
  from host ea have s: "self' = ?self" by simp
  have ev: "write_doc Min ?super ''a'' () ?self = Some (Inl ''IOError'', ?self)"
    using ea by (simp add: write_doc_def Let_def)
  from run s lim ev show ?thesis by simp
qed

section \<open>The sitemap: \<^verbatim>\<open>collect_sitemap_link\<close> and \<^verbatim>\<open>build_sitemap\<close>\<close>

text \<open>
  \<^verbatim>\<open>
  def collect_sitemap_link(app, pagename, templatename, context, doctree):
      app.sitemap_links.append(pagename + ".html")

  def build_sitemap(app, exception):
      if exception is not None:
          return
      base_url = app.config['html_theme_options'].get('base_url', '')
      if not base_url:
          return
      if not app.sitemap_links:
          return
      filename = app.outdir + "/sitemap.xml"
      print("Generating sitemap.xml in %s" % filename)
      root = ET.Element("urlset")
      root.set("xmlns", "http://www.sitemaps.org/schemas/sitemap/0.9")
      for link in app.sitemap_links:
          url = ET.SubElement(root, "url")
          ET.SubElement(url, "loc").text = '{}/{}'.format(base_url.rstrip('/'), link)
      ET.ElementTree(root).write(filename)
  \<close>
  The application object is a record of the fields read here; the theme options are a map
  from option names to strings. An XML element is its tag, its attributes, its text and
  its children in order. What \<^verbatim>\<open>build_sitemap\<close> does to the world is returned: the
  line it prints and the file it writes (the file's name and the tree handed to
  \<^verbatim>\<open>ElementTree.write\<close>), or \<open>None\<close> when it returns early.
\<close>

datatype element = Element (tag: string) (attrib: "(string \<times> string) list")
  (elem_text: "string option") (children: "element list")

record app =
  sitemap_links :: "string list"
  html_theme_options :: "string \<rightharpoonup> string"
  outdir :: string

record sitemap_written =
  printed :: string
  written_to :: string
  written_root :: element

definition collect_sitemap_link :: "'x app_scheme \<Rightarrow> string \<Rightarrow> 'x app_scheme" where
  "collect_sitemap_link app pagename =
     app\<lparr>sitemap_links := sitemap_links app @ [pagename @ ''.html'']\<rparr>"

definition rstrip_chars :: "char \<Rightarrow> string \<Rightarrow> string" where
  "rstrip_chars c s = rev (dropWhile (\<lambda>x. x = c) (rev s))"

definition SubElement :: "element \<Rightarrow> element \<Rightarrow> element" where
  "SubElement parent child =
     Element (tag parent) (attrib parent) (elem_text parent) (children parent @ [child])"

fun sitemap_urls :: "string \<Rightarrow> string list \<Rightarrow> element \<Rightarrow> element" where
  "sitemap_urls base_url [] root = root"
| "sitemap_urls base_url (link # links) root =
     (let loc = Element ''loc'' [] (Some (rstrip_chars (CHR ''/'') base_url @ ''/'' @ link)) [];
          url = SubElement (Element ''url'' [] None []) loc
      in sitemap_urls base_url links (SubElement root url))"

definition build_sitemap :: "'x app_scheme \<Rightarrow> 'e option \<Rightarrow> sitemap_written option" where
  "build_sitemap app exception =
     (if exception \<noteq> None then None
      else
        let base_url = (case html_theme_options app ''base_url'' of None \<Rightarrow> '''' | Some u \<Rightarrow> u)
        in if base_url = '''' then None
           else if sitemap_links app = [] then None
           else
             let filename = outdir app @ ''/sitemap.xml'';
                 root = Element ''urlset''
                          [(''xmlns'', ''http://www.sitemaps.org/schemas/sitemap/0.9'')] None []
             in Some \<lparr>printed = ''Generating sitemap.xml in '' @ filename,
                      written_to = filename,
                      written_root = sitemap_urls base_url (sitemap_links app) root\<rparr>)"

text \<open>
  The entry of the specification for one page, written from the base URL as it stands
  once its trailing slashes are gone (\<open>stripped\<close>); and the pages collected so far.
\<close>

definition url_entry :: "string \<Rightarrow> string \<Rightarrow> element" where
  "url_entry stripped pagename =
     Element ''url'' [] None
       [Element ''loc'' [] (Some (stripped @ ''/'' @ pagename @ ''.html'')) []]"

fun collect_pages :: "'x app_scheme \<Rightarrow> string list \<Rightarrow> 'x app_scheme" where
  "collect_pages app [] = app"
| "collect_pages app (pagename # pagenames) =
     collect_pages (collect_sitemap_link app pagename) pagenames"

definition has_base_url :: "'x app_scheme \<Rightarrow> bool" where
  "has_base_url app \<longleftrightarrow> (\<exists>u. html_theme_options app ''base_url'' = Some u \<and> u \<noteq> '''')"

lemma sitemap_urls_children:
  "sitemap_urls base_url links r =
     Element (tag r) (attrib r) (elem_text r)
       (children r @ map (\<lambda>link. Element ''url'' [] None
          [Element ''loc'' [] (Some (rstrip_chars (CHR ''/'') base_url @ ''/'' @ link)) []]) links)"
proof (induction links arbitrary: r)
  case Nil
  then show ?case by simp
next
  case (Cons link links)
  show ?case
    unfolding sitemap_urls.simps Let_def Cons.IH
    by (simp add: SubElement_def)
qed

lemma collect_pages_links:
  "sitemap_links (collect_pages app pagenames) =
     sitemap_links app @ map (\<lambda>p. p @ ''.html'') pagenames"
  by (induction pagenames arbitrary: app) (simp_all add: collect_sitemap_link_def)

lemma collect_pages_options:
  "html_theme_options (collect_pages app pagenames) = html_theme_options app \<and>
   outdir (collect_pages app pagenames) = outdir app"
  by (induction pagenames arbitrary: app) (simp_all add: collect_sitemap_link_def)

lemma build_sitemap_writes_iff:
  "build_sitemap app exception \<noteq> None \<longleftrightarrow>
     exception = None \<and> has_base_url app \<and> sitemap_links app \<noteq> []"
  unfolding build_sitemap_def has_base_url_def Let_def
  by (cases "html_theme_options app ''base_url''") simp_all


lemma build_sitemap_written:
  assumes "build_sitemap app exception = Some w"
  shows "written_to w = outdir app @ ''/sitemap.xml'' \<and>
         tag (written_root w) = ''urlset'' \<and>
         children (written_root w) =
           map (\<lambda>link. Element ''url'' [] None
                  [Element ''loc'' []
                     (Some (rstrip_chars (CHR ''/'') (the (html_theme_options app ''base_url'')) @ ''/'' @ link)) []])
               (sitemap_links app)"
proof (cases "html_theme_options app ''base_url''")
  case None
  with assms show ?thesis by (simp add: build_sitemap_def split: if_splits)
next
  case (Some u)
  with assms have w: "w = \<lparr>printed = ''Generating sitemap.xml in '' @ (outdir app @ ''/sitemap.xml''),
        written_to = outdir app @ ''/sitemap.xml'',
        written_root = sitemap_urls u (sitemap_links app)
          (Element ''urlset'' [(''xmlns'', ''http://www.sitemaps.org/schemas/sitemap/0.9'')] None [])\<rparr>"
    by (simp add: build_sitemap_def Let_def split: if_splits)
  show ?thesis
    unfolding w using Some by (simp add: sitemap_urls_children)
qed

lemma rstrip_chars_spec:
  "\<exists>n. s = rstrip_chars c s @ replicate n c \<and>
       \<not> (rstrip_chars c s \<noteq> [] \<and> last (rstrip_chars c s) = c)"
proof -
  let ?P = "\<lambda>x. x = c"
  have all: "\<forall>x \<in> set (takeWhile ?P (rev s)). x = c"
    by (auto dest: set_takeWhileD)
  then have tw: "takeWhile ?P (rev s) = replicate (length (takeWhile ?P (rev s))) c"
    by (simp add: replicate_length_same)
  have "s = rev (takeWhile ?P (rev s) @ dropWhile ?P (rev s))"
    by (simp only: takeWhile_dropWhile_id rev_rev_ident)
  then have "s = rev (dropWhile ?P (rev s)) @ rev (takeWhile ?P (rev s))"
    by (simp only: rev_append)
  then have "s = rstrip_chars c s @ rev (takeWhile ?P (rev s))"
    by (simp only: rstrip_chars_def)
  moreover have "rev (takeWhile ?P (rev s)) = replicate (length (takeWhile ?P (rev s))) c"
    by (subst tw) simp
  ultimately have split: "s = rstrip_chars c s @ replicate (length (takeWhile ?P (rev s))) c"
    by simp
  have tail: "\<not> (rstrip_chars c s \<noteq> [] \<and> last (rstrip_chars c s) = c)"
  proof
    assume a: "rstrip_chars c s \<noteq> [] \<and> last (rstrip_chars c s) = c"
    then have ne: "dropWhile ?P (rev s) \<noteq> []" by (simp add: rstrip_chars_def)
    from a ne have "hd (dropWhile ?P (rev s)) = c"
      by (simp add: rstrip_chars_def last_rev)
    moreover from ne have "\<not> ?P (hd (dropWhile ?P (rev s)))" by (rule hd_dropWhile)
    ultimately show False by simp
  qed
  from split tail show ?thesis by blast
qed

text \<open>
  C5. \<^verbatim>\<open>build_sitemap\<close> writes a file exactly when the build ended without an exception,
  the theme options hold a non-empty \<^verbatim>\<open>base_url\<close> and at least one page link was
  collected. When it writes after the pages \<open>pagenames\<close> were collected (into an application
  that had no link yet), the file is \<^verbatim>\<open>sitemap.xml\<close> under the output directory and its
  root \<^verbatim>\<open>urlset\<close> has one \<^verbatim>\<open>url\<close>/\<^verbatim>\<open>loc\<close> child for each collected page, in order, whose
  text is \<open>stripped\<close>, a slash, the page name and \<^verbatim>\<open>.html\<close>, where \<open>stripped\<close> is the base
  URL without its trailing slashes: the base URL is \<open>stripped\<close> followed by slashes only,
  and \<open>stripped\<close> does not end in a slash.
\<close>

theorem build_sitemap_only_with_base_url:
  "(build_sitemap app exception \<noteq> None \<longleftrightarrow>
      exception = None \<and> has_base_url app \<and> sitemap_links app \<noteq> []) \<and>
   (sitemap_links app = [] \<and>
    build_sitemap (collect_pages app pagenames) exception = Some w \<longrightarrow>
      written_to w = outdir app @ ''/sitemap.xml'' \<and>
      tag (written_root w) = ''urlset'' \<and>
      (\<exists>base_url stripped n.
         html_theme_options app ''base_url'' = Some base_url \<and>
         base_url = stripped @ replicate n (CHR ''/'') \<and>
         \<not> (stripped \<noteq> [] \<and> last stripped = CHR ''/'') \<and>
         children (written_root w) = map (url_entry stripped) pagenames))"
proof (intro conjI impI)
  show "build_sitemap app exception \<noteq> None \<longleftrightarrow>
      exception = None \<and> has_base_url app \<and> sitemap_links app \<noteq> []"
    by (rule build_sitemap_writes_iff)
next
  assume a: "sitemap_links app = [] \<and>
    build_sitemap (collect_pages app pagenames) exception = Some w"
  note wr = build_sitemap_written [OF a [THEN conjunct2]]
  from wr show "written_to w = outdir app @ ''/sitemap.xml''"
    by (simp add: collect_pages_options)
  from wr show "tag (written_root w) = ''urlset''" by simp
  from a have "build_sitemap (collect_pages app pagenames) exception \<noteq> None" by simp
  then have "exception = None \<and> has_base_url (collect_pages app pagenames) \<and>
      sitemap_links (collect_pages app pagenames) \<noteq> []"
    unfolding build_sitemap_writes_iff .
  then have "has_base_url (collect_pages app pagenames)" by (elim conjE)
  then obtain base_url where base: "html_theme_options app ''base_url'' = Some base_url"
    by (auto simp: has_base_url_def collect_pages_options)
  from rstrip_chars_spec [of base_url "CHR ''/''"] obtain n where
    n: "base_url = rstrip_chars (CHR ''/'') base_url @ replicate n (CHR ''/'')"
    and nl: "\<not> (rstrip_chars (CHR ''/'') base_url \<noteq> [] \<and>
               last (rstrip_chars (CHR ''/'') base_url) = CHR ''/'')"
    by (elim exE conjE)
  from wr a base have ch: "children (written_root w) =
      map (url_entry (rstrip_chars (CHR ''/'') base_url)) pagenames"
    by (simp add: collect_pages_options collect_pages_links url_entry_def comp_def)
  show "\<exists>base_url stripped n.
         html_theme_options app ''base_url'' = Some base_url \<and>
         base_url = stripped @ replicate n (CHR ''/'') \<and>
         \<not> (stripped \<noteq> [] \<and> last stripped = CHR ''/'') \<and>
         children (written_root w) = map (url_entry stripped) pagenames"
    using base n nl ch by (intro exI conjI)
qed

theorem build_sitemap_only_with_base_url_witness:
  "build_sitemap
     (collect_pages
        \<lparr>sitemap_links = [], html_theme_options = [''base_url'' \<mapsto> ''https://docs.example.com//''],
         outdir = ''_build''\<rparr> [''index'', ''api/teams''])
     (None :: string option) =
   Some \<lparr>printed = ''Generating sitemap.xml in _build/sitemap.xml'',
         written_to = ''_build/sitemap.xml'',
         written_root = Element ''urlset''
           [(''xmlns'', ''http://www.sitemaps.org/schemas/sitemap/0.9'')] None
           [Element ''url'' [] None
              [Element ''loc'' [] (Some ''https://docs.example.com/index.html'') []],
            Element ''url'' [] None
              [Element ''loc'' [] (Some ''https://docs.example.com/api/teams.html'') []]]\<rparr> \<and>
   build_sitemap
     (collect_pages
        \<lparr>sitemap_links = [], html_theme_options = Map.empty, outdir = ''_build''\<rparr>
        [''index'', ''api/teams''])
     (None :: string option) = None \<and>
   (\<exists>stripped n.
      ''https://docs.example.com//'' = stripped @ replicate n (CHR ''/'') \<and>
      \<not> (stripped \<noteq> [] \<and> last stripped = CHR ''/'') \<and>
      [Element ''url'' [] None
         [Element ''loc'' [] (Some ''https://docs.example.com/index.html'') []],
       Element ''url'' [] None
         [Element ''loc'' [] (Some ''https://docs.example.com/api/teams.html'') []]] =
      map (url_entry stripped) [''index'', ''api/teams''])"
proof -
  let ?app = "\<lparr>sitemap_links = [], html_theme_options = [''base_url'' \<mapsto> ''https://docs.example.com//''],
         outdir = ''_build''\<rparr>"
  let ?w = "\<lparr>printed = ''Generating sitemap.xml in _build/sitemap.xml'',
         written_to = ''_build/sitemap.xml'',
         written_root = Element ''urlset''
           [(''xmlns'', ''http://www.sitemaps.org/schemas/sitemap/0.9'')] None
           [Element ''url'' [] None
              [Element ''loc'' [] (Some ''https://docs.example.com/index.html'') []],
            Element ''url'' [] None
              [Element ''loc'' [] (Some ''https://docs.example.com/api/teams.html'') []]]\<rparr>"
  have run: "build_sitemap (collect_pages ?app [''index'', ''api/teams'']) (None :: string option) = Some ?w"
    by (simp add: build_sitemap_def collect_sitemap_link_def Let_def rstrip_chars_def SubElement_def)
  have no: "build_sitemap
     (collect_pages \<lparr>sitemap_links = [], html_theme_options = Map.empty, outdir = ''_build''\<rparr>
        [''index'', ''api/teams'']) (None :: string option) = None"
    by (simp add: build_sitemap_def collect_sitemap_link_def)
  have pre: "sitemap_links ?app = [] \<and>
      build_sitemap (collect_pages ?app [''index'', ''api/teams'']) (None :: string option) = Some ?w"
    using run by simp
  from build_sitemap_only_with_base_url
    [of ?app "None :: string option" "[''index'', ''api/teams'']" ?w, THEN conjunct2, rule_format, OF pre]
  obtain base_url stripped n where
    b: "html_theme_options ?app ''base_url'' = Some base_url"
    and s: "base_url = stripped @ replicate n (CHR ''/'')"
    and l: "\<not> (stripped \<noteq> [] \<and> last stripped = CHR ''/'')"
    and c: "children (written_root ?w) = map (url_entry stripped) [''index'', ''api/teams'']"
    by (elim exE conjE)
  from b have bu: "base_url = ''https://docs.example.com//''" by simp
  from c have c': "[Element ''url'' [] None
         [Element ''loc'' [] (Some ''https://docs.example.com/index.html'') []],
       Element ''url'' [] None
         [Element ''loc'' [] (Some ''https://docs.example.com/api/teams.html'') []]] =
      map (url_entry stripped) [''index'', ''api/teams'']"
    by simp
  from s bu have s': "''https://docs.example.com//'' = stripped @ replicate n (CHR ''/'')"
    by simp
  have ex: "\<exists>stripped n.
      ''https://docs.example.com//'' = stripped @ replicate n (CHR ''/'') \<and>
      \<not> (stripped \<noteq> [] \<and> last stripped = CHR ''/'') \<and>
      [Element ''url'' [] None
         [Element ''loc'' [] (Some ''https://docs.example.com/index.html'') []],
       Element ''url'' [] None
         [Element ''loc'' [] (Some ''https://docs.example.com/api/teams.html'') []]] =
      map (url_entry stripped) [''index'', ''api/teams'']"
    using s' l c' by (intro exI conjI)
  from run no ex show ?thesis by (intro conjI)
qed

section \<open>Exceptions\<close>

text \<open>
  The Python exceptions that the modelled functions raise or let through, each with its
  message. A function that can raise returns \<open>exn + 'a\<close>, with \<open>Inl\<close> for the exception.
\<close>

datatype exn =
    OSError string
  | IOError string
  | ValueError string
  | KeyError string
  | AttributeError string
  | TypeError string
  | StopIteration

section \<open>The sidecar configuration: \<^verbatim>\<open>find_config\<close>\<close>

text \<open>
  \<^verbatim>\<open>
  def find_config(path, root):
      while 1:
          if path is None or root is None:
              break
          if os.path.samefile(path, root):
              break
          if os.path.isfile(os.path.join(path, 'sentry-doc-config.json')):
              with open(os.path.join(path, 'sentry-doc-config.json')) as f:
                  return json.load(f)
          new_path = os.path.dirname(path)
          if new_path == path:
              break
          path = new_path
  \<close>
  A path is absolute and normalised: the list of its components below the filesystem root,
  which is the empty list. The filesystem maps a path to what is there: a directory, or a
  file, which carries what \<^verbatim>\<open>json.load\<close> gives on its content (the parsed value, or the
  exception it raises on malformed content). There are no links, so that
  \<^verbatim>\<open>os.path.samefile\<close> holds of equal paths only; it raises \<^verbatim>\<open>OSError\<close> when one of
  its arguments does not exist. \<^verbatim>\<open>os.path.dirname\<close> drops the last component and
  leaves the filesystem root as it is. Falling out of the loop returns \<^verbatim>\<open>None\<close>.
\<close>

type_synonym path = "string list"

datatype 'a node = Dir | File "exn + 'a"

type_synonym 'a filesystem = "path \<Rightarrow> 'a node option"

definition config_name :: string where
  "config_name = ''sentry-doc-config.json''"

definition samefile :: "'a filesystem \<Rightarrow> path \<Rightarrow> path \<Rightarrow> exn + bool" where
  "samefile fs p q =
     (if fs p = None \<or> fs q = None then Inl (OSError ''No such file or directory'')
      else Inr (p = q))"

definition isfile :: "'a filesystem \<Rightarrow> path \<Rightarrow> bool" where
  "isfile fs p = (case fs p of Some (File content) \<Rightarrow> True | _ \<Rightarrow> False)"

definition path_join :: "path \<Rightarrow> string \<Rightarrow> path" where
  "path_join p name = p @ [name]"

definition dirname :: "path \<Rightarrow> path" where
  "dirname p = butlast p"

definition json_load :: "'a filesystem \<Rightarrow> path \<Rightarrow> exn + 'a" where
  "json_load fs p =
     (case fs p of
        Some (File content) \<Rightarrow> content
      | _ \<Rightarrow> Inl (IOError ''No such file or directory''))"

function find_config_loop :: "'a filesystem \<Rightarrow> path \<Rightarrow> path \<Rightarrow> exn + 'a option" where
  "find_config_loop fs path root =
     (case samefile fs path root of
        Inl e \<Rightarrow> Inl e
      | Inr True \<Rightarrow> Inr None
      | Inr False \<Rightarrow>
          if isfile fs (path_join path config_name)
          then (case json_load fs (path_join path config_name) of
                  Inl e \<Rightarrow> Inl e
                | Inr cfg \<Rightarrow> Inr (Some cfg))
          else
            let new_path = dirname path
            in if new_path = path then Inr None
               else find_config_loop fs new_path root)"
  by pat_completeness auto
termination
proof (relation "measure (\<lambda>(fs, path, root). length path)")
  show "wf (measure (\<lambda>(fs, path, root). length path))" by simp
next
  fix fs :: "'a filesystem" and path root :: path and b x
  assume "x = dirname path" and "x \<noteq> path"
  then have "path \<noteq> []" by (auto simp: dirname_def)
  then show "((fs, x, root), (fs, path, root)) \<in> measure (\<lambda>(fs, path, root). length path)"
    using \<open>x = dirname path\<close> by (simp add: dirname_def)
qed

declare find_config_loop.simps [simp del]

definition find_config :: "'a filesystem \<Rightarrow> path option \<Rightarrow> path option \<Rightarrow> exn + 'a option" where
  "find_config fs path root =
     (case (path, root) of
        (Some p, Some r) \<Rightarrow> find_config_loop fs p r
      | _ \<Rightarrow> Inr None)"

text \<open>
  The directories of the specification. \<open>searched path root\<close> are the path itself and its
  ancestors \<open>q\<close> such that the project root does not lie on the way from the path up to
  \<open>q\<close> (both ends included): the ascent stops when it reaches the project root, before
  looking into it. \<open>has_config\<close> says that a directory holds the configuration file.
\<close>

definition searched :: "path \<Rightarrow> path \<Rightarrow> path set" where
  "searched path root = {q. prefix q path \<and> \<not> (prefix q root \<and> prefix root path)}"

definition has_config :: "'a filesystem \<Rightarrow> path \<Rightarrow> bool" where
  "has_config fs q \<longleftrightarrow> (\<exists>content. fs (q @ [''sentry-doc-config.json'']) = Some (File content))"

definition loaded :: "exn + 'a \<Rightarrow> exn + 'a option" where
  "loaded content = (case content of Inl e \<Rightarrow> Inl e | Inr cfg \<Rightarrow> Inr (Some cfg))"

lemma searched_root: "searched root root = {}"
  by (auto simp: searched_def)

lemma searched_self: "path \<noteq> root \<Longrightarrow> path \<in> searched path root"
  by (auto simp: searched_def dest: prefix_order.antisym)

lemma searched_step:
  assumes "path \<noteq> []" and "path \<noteq> root"
  shows "searched path root = insert path (searched (butlast path) root)"
proof -
  from assms(1) obtain ys y where p: "path = ys @ [y]"
    by (cases path rule: rev_cases) auto
  have pre: "\<And>q. prefix q path \<longleftrightarrow> q = path \<or> prefix q ys"
    unfolding p by (simp add: prefix_snoc)
  have rt: "prefix root path \<longleftrightarrow> prefix root ys"
    using assms(2) pre [of root] by auto
  show ?thesis
  proof (intro set_eqI iffI)
    fix q assume "q \<in> searched path root"
    then show "q \<in> insert path (searched (butlast path) root)"
      using pre [of q] rt unfolding searched_def p by auto
  next
    fix q assume q: "q \<in> insert path (searched (butlast path) root)"
    show "q \<in> searched path root"
    proof (cases "q = path")
      case True
      with assms(2) show ?thesis by (simp add: searched_self)
    next
      case False
      with q have "q \<in> searched ys root" by (simp add: p)
      then show ?thesis
        using pre [of q] rt unfolding searched_def by auto
    qed
  qed
qed

lemma searched_length: "q \<in> searched path root \<Longrightarrow> q \<noteq> path \<Longrightarrow> length q < length path"
  unfolding searched_def
  by (auto simp: prefix_order.le_less dest: prefix_length_less)

lemma samefile_exists:
  assumes "fs p \<noteq> None" "fs q \<noteq> None"
  shows "samefile fs p q = Inr (p = q)"
proof -
  from assms obtain a b where "fs p = Some a" "fs q = Some b" by auto
  then show ?thesis by (simp add: samefile_def)
qed

lemma find_config_loop_found:
  assumes "fs path \<noteq> None" "fs root \<noteq> None" "path \<noteq> root"
    and "fs (path @ [''sentry-doc-config.json'']) = Some (File c)"
  shows "find_config_loop fs path root = loaded c"
  using assms(3,4) samefile_exists [of fs path root, OF assms(1,2)]
  by (subst find_config_loop.simps)
     (simp add: isfile_def json_load_def path_join_def config_name_def loaded_def
        split: sum.splits)

lemma find_config_loop_root:
  assumes "fs root \<noteq> None"
  shows "find_config_loop fs root root = Inr None"
  using samefile_exists [of fs root root, OF assms assms]
  by (subst find_config_loop.simps) simp

lemma find_config_loop_up:
  assumes "fs path \<noteq> None" "fs root \<noteq> None" "path \<noteq> root"
    and "\<not> has_config fs path"
  shows "find_config_loop fs path root =
           (if path = [] then Inr None else find_config_loop fs (butlast path) root)"
proof -
  from assms(4) have nf: "\<not> isfile fs (path_join path config_name)"
    by (auto simp: isfile_def path_join_def config_name_def has_config_def
          split: option.splits node.splits)
  have b: "butlast path = path \<longleftrightarrow> path = []"
    by (cases path rule: rev_cases) auto
  show ?thesis
    using assms(3) nf b samefile_exists [of fs path root, OF assms(1,2)]
    by (subst find_config_loop.simps) (simp add: dirname_def Let_def)
qed

lemma find_config_loop_spec:
  assumes "fs root \<noteq> None" and "\<forall>q. prefix q path \<longrightarrow> fs q \<noteq> None"
  shows "(\<forall>q content.
            q \<in> searched path root \<and> fs (q @ [''sentry-doc-config.json'']) = Some (File content) \<and>
            (\<forall>q' \<in> searched path root. length q < length q' \<longrightarrow> \<not> has_config fs q') \<longrightarrow>
            find_config_loop fs path root = loaded content) \<and>
         ((\<forall>q \<in> searched path root. \<not> has_config fs q) \<longrightarrow>
            find_config_loop fs path root = Inr None)"
  using assms(2)
proof (induction path rule: rev_induct)
  case Nil
  have ex: "fs [] \<noteq> None" using Nil by simp
  show ?case
  proof (cases "[] = root")
    case True
    then show ?thesis
      using find_config_loop_root [of fs root, OF assms(1)] by (simp add: searched_root)
  next
    case ne: False
    have s: "searched [] root = {[]}" using ne by (auto simp: searched_def)
    show ?thesis
    proof (cases "has_config fs []")
      case True
      then obtain c where c: "fs ([] @ [''sentry-doc-config.json'']) = Some (File c)"
        by (auto simp: has_config_def)
      from find_config_loop_found [OF ex assms(1) ne c] c True
      show ?thesis unfolding s by auto
    next
      case False
      from find_config_loop_up [OF ex assms(1) ne False] False
      show ?thesis unfolding s by (auto simp: has_config_def)
    qed
  qed
next
  case (snoc y ys)
  let ?path = "ys @ [y]"
  have ex: "fs ?path \<noteq> None" using snoc.prems by simp
  have pre: "\<forall>q. prefix q ys \<longrightarrow> fs q \<noteq> None"
    using snoc.prems by (simp add: prefix_snoc)
  note ih = snoc.IH [OF pre]
  show ?case
  proof (cases "?path = root")
    case True
    then show ?thesis
      using find_config_loop_root [of fs root, OF assms(1)] by (simp add: searched_root)
  next
    case ne: False
    note self = searched_self [OF ne]
    have step: "searched ?path root = insert ?path (searched ys root)"
      using searched_step [OF _ ne] by simp
    show ?thesis
    proof (cases "has_config fs ?path")
      case True
      then obtain c where c: "fs (?path @ [''sentry-doc-config.json'']) = Some (File c)"
        by (auto simp: has_config_def)
      note res = find_config_loop_found [OF ex assms(1) ne c]
      have a: "find_config_loop fs ?path root = loaded content"
        if q: "q \<in> searched ?path root"
          and qc: "fs (q @ [''sentry-doc-config.json'']) = Some (File content)"
          and mx: "\<forall>q' \<in> searched ?path root. length q < length q' \<longrightarrow> \<not> has_config fs q'"
        for q content
      proof -
        have "q = ?path"
        proof (rule ccontr)
          assume "q \<noteq> ?path"
          from searched_length [OF q this] mx self True show False by auto
        qed
        with qc c res show ?thesis by simp
      qed
      from a self True show ?thesis by blast
    next
      case False
      have res: "find_config_loop fs ?path root = find_config_loop fs ys root"
        using find_config_loop_up [OF ex assms(1) ne False] by simp
      show ?thesis
        unfolding res step using ih False
        by (auto simp: has_config_def)
    qed
  qed
qed


text \<open>
  C2, as the code has it. On a filesystem where the project root and the path with all its
  ancestors exist, \<^verbatim>\<open>find_config\<close> returns the parsed content of the configuration file
  of the first searched directory that holds one (the deepest: no longer searched directory
  holds one), raising what \<^verbatim>\<open>json.load\<close> raises on it, and returns \<^verbatim>\<open>None\<close> when no
  searched directory holds one. The searched directories are the path and its ancestors
  strictly below the project root: the project root itself is never searched. With no
  path or no root the result is \<^verbatim>\<open>None\<close>.
\<close>

theorem find_config_first_below_root:
  assumes "fs root \<noteq> None" and "\<forall>q \<in> set (prefixes path). fs q \<noteq> None"
  shows "root \<notin> searched path root \<and>
         (\<forall>q content.
            q \<in> searched path root \<and> fs (q @ [''sentry-doc-config.json'']) = Some (File content) \<and>
            (\<forall>q' \<in> searched path root. length q < length q' \<longrightarrow> \<not> has_config fs q') \<longrightarrow>
            find_config fs (Some path) (Some root) = loaded content) \<and>
         ((\<forall>q \<in> searched path root. \<not> has_config fs q) \<longrightarrow>
            find_config fs (Some path) (Some root) = Inr None) \<and>
         find_config fs None (Some root) = Inr None \<and>
         find_config fs (Some path) None = Inr None"
proof -
  have pre: "\<forall>q. prefix q path \<longrightarrow> fs q \<noteq> None"
    using assms(2) by (simp add: in_set_prefixes)
  have r: "root \<notin> searched path root"
    by (auto simp: searched_def)
  have f: "find_config fs (Some path) (Some root) = find_config_loop fs path root"
    by (simp add: find_config_def)
  have n: "find_config fs None (Some root) = Inr None \<and>
           find_config fs (Some path) None = Inr None"
    by (simp add: find_config_def)
  from find_config_loop_spec [OF assms(1) pre] r n show ?thesis
    unfolding f by (intro conjI) (elim conjE, assumption)+
qed

theorem find_config_first_below_root_witness:
  "find_config
     (map_of
        [([], Dir),
         ([''docs''], Dir),
         ([''docs'', ''sentry-doc-config.json''], File (Inr (2::nat))),
         ([''docs'', ''clients''], Dir),
         ([''docs'', ''clients'', ''sentry-doc-config.json''], File (Inr 1)),
         ([''docs'', ''clients'', ''python''], Dir),
         ([''docs'', ''clients'', ''python'', ''index.rst''], File (Inl (ValueError ''No JSON'')))])
     (Some [''docs'', ''clients'', ''python'', ''index.rst''])
     (Some [''docs'']) = Inr (Some 1) \<and>
   [''docs'', ''clients''] \<in> searched [''docs'', ''clients'', ''python'', ''index.rst''] [''docs''] \<and>
   [''docs''] \<notin> searched [''docs'', ''clients'', ''python'', ''index.rst''] [''docs'']"
proof -
  let ?fs = "map_of
        [([], Dir),
         ([''docs''], Dir),
         ([''docs'', ''sentry-doc-config.json''], File (Inr (2::nat))),
         ([''docs'', ''clients''], Dir),
         ([''docs'', ''clients'', ''sentry-doc-config.json''], File (Inr 1)),
         ([''docs'', ''clients'', ''python''], Dir),
         ([''docs'', ''clients'', ''python'', ''index.rst''], File (Inl (ValueError ''No JSON'')))]"
  let ?path = "[''docs'', ''clients'', ''python'', ''index.rst'']"
  let ?root = "[''docs'']"
  let ?q = "[''docs'', ''clients'']"
  have h1: "?fs ?root \<noteq> None" by simp
  have h2: "\<forall>q \<in> set (prefixes ?path). ?fs q \<noteq> None" by simp
  note t = find_config_first_below_root [OF h1 h2]
  have q: "?q \<in> searched ?path ?root" by (simp add: searched_def)
  have c: "?fs (?q @ [''sentry-doc-config.json'']) = Some (File (Inr 1))" by simp
  have n1: "\<not> has_config ?fs ?path" by (simp add: has_config_def)
  have n2: "\<not> has_config ?fs [''docs'', ''clients'', ''python'']" by (simp add: has_config_def)
  have mx: "\<forall>q' \<in> searched ?path ?root. length ?q < length q' \<longrightarrow> \<not> has_config ?fs q'"
  proof (intro ballI impI)
    fix q' assume a: "q' \<in> searched ?path ?root" and l: "length ?q < length q'"
    from a have "prefix q' ?path" by (simp add: searched_def)
    then have "q' \<in> set (prefixes ?path)" by (simp only: in_set_prefixes)
    then have "q' = [] \<or> q' = [''docs''] \<or> q' = ?q \<or> q' = [''docs'', ''clients'', ''python''] \<or> q' = ?path"
      by (simp del: in_set_prefixes)
    with l have "q' = [''docs'', ''clients'', ''python''] \<or> q' = ?path"
      by (elim disjE) simp_all
    with n1 n2 show "\<not> has_config ?fs q'" by (elim disjE) simp_all
  qed
  from t have A: "\<forall>q content.
      q \<in> searched ?path ?root \<and> ?fs (q @ [''sentry-doc-config.json'']) = Some (File content) \<and>
      (\<forall>q' \<in> searched ?path ?root. length q < length q' \<longrightarrow> \<not> has_config ?fs q') \<longrightarrow>
      find_config ?fs (Some ?path) (Some ?root) = loaded content"
    by (elim conjE)
  have "find_config ?fs (Some ?path) (Some ?root) = loaded (Inr 1)"
    by (rule A [rule_format, of ?q "Inr 1"]) (intro conjI q c mx)
  then have res: "find_config ?fs (Some ?path) (Some ?root) = Inr (Some 1)"
    by (simp add: loaded_def)
  from t have nr: "?root \<notin> searched ?path ?root" by (elim conjE)
  from res q nr show ?thesis by (intro conjI)
qed

text \<open>
  C2 as the claim states it, with the search reaching the project root, fails where the
  only configuration file lies in the project root itself, even for a document of that
  very directory: the loop leaves at the project root before it looks for the file.
\<close>

theorem find_config_project_root_counterexample:
  "find_config
     (map_of
        [([], Dir),
         ([''docs''], Dir),
         ([''docs'', ''sentry-doc-config.json''], File (Inr (2::nat))),
         ([''docs'', ''index.rst''], File (Inl (ValueError ''No JSON'')))])
     (Some [''docs'', ''index.rst''])
     (Some [''docs'']) = Inr None \<and>
   map_of
        [([], Dir),
         ([''docs''], Dir),
         ([''docs'', ''sentry-doc-config.json''], File (Inr (2::nat))),
         ([''docs'', ''index.rst''], File (Inl (ValueError ''No JSON'')))]
     ([''docs''] @ [''sentry-doc-config.json'']) = Some (File (Inr 2))"
  by (simp add: find_config_def find_config_loop.simps samefile_def isfile_def path_join_def
      config_name_def dirname_def json_load_def)

section \<open>The platform index: \<^verbatim>\<open>__process_platform_index\<close>\<close>

text \<open>
  \<^verbatim>\<open>
  def __process_platform_index(self, platforms):
      tree = {}
      for uid, platform_data in platforms.iteritems():
          if '.' in uid:
              base, local_name = uid.split('.', 1)
              if base not in platforms:
                  print >> sys.stderr, 'Missing platform "%s" (referenced ' \
                          'from %s)' % (base, uid)
                  continue
          else:
              base = uid
              local_name = '_self'
          tree.setdefault(base, {})[local_name] = {
              'details': uid.replace('.', '/') + '.json',
              'name': platform_data['name'],
              'type': platform_data['type'],
              'doc_link': platform_data['doc_link'],
          }
      return tree
  \<close>
  \<open>platforms\<close> is the dict that \<^verbatim>\<open>__process_platform\<close> builds: every value has the keys
  read here, so it is a record (\<open>pf_name\<close> for \<^verbatim>\<open>'name'\<close>, \<open>pf_type\<close> for \<^verbatim>\<open>'type'\<close>).
  The result is returned with the lines printed to the error stream. The tree is a dict
  of dicts, an association list of association lists.
\<close>

record platform_entry =
  pf_name :: string
  pf_type :: string
  pf_doc_link :: "string option"
  pf_support_level :: "string option"
  pf_body :: string





definition split_once :: "char \<Rightarrow> string \<Rightarrow> string \<times> string" where
  "split_once c s = (takeWhile (\<lambda>x. x \<noteq> c) s, drop 1 (dropWhile (\<lambda>x. x \<noteq> c) s))"








subsection \<open>What the loop writes\<close>























section \<open>Wizard snippets: \<^verbatim>\<open>__build_wizard_section\<close> and \<^verbatim>\<open>__process_platform\<close>\<close>

text \<open>
  \<^verbatim>\<open>
  def __build_wizard_section(self, base_path, snippets):
      trees = {}
      rv = []

      def _build_node(node):
          original_header_level = self.docsettings.initial_header_level
          self.docsettings.initial_header_level = 2
          original_args = self.highlighter.formatter_args
          self.highlighter.formatter_args = original_args.copy()
          self.highlighter.formatter_args['noclasses'] = True
          try:
              sub_doc = document(self.docsettings, doctree.reporter)
              sub_doc += node
              destination = StringOutput(encoding='utf-8')
              self.current_docname = docname
              self.docwriter.write(sub_doc, destination)
              self.docwriter.assemble_parts()
              rv.append(self.docwriter.parts['fragment'])
          finally:
              self.highlighter.formatter_args = original_args
              self.docsettings.initial_header_level = original_header_level

      self.build_wizard_fragment = True
      try:
          for snippet in snippets:
              if '#' not in snippet:
                  snippet_path = snippet
                  section_name = None
              else:
                  snippet_path, section_name = snippet.split('#', 1)
              docname = posixpath.join(base_path, snippet_path)
              if docname in trees:
                  doctree = trees.get(docname)
              else:
                  doctree = self.env.get_and_resolve_doctree(docname, self)
                  trees[docname] = doctree

              if section_name is None:
                  _build_node(next(iter(doctree.traverse(section))))
              else:
                  for sect in doctree.traverse(section):
                      if section_name in sect['ids']:
                          _build_node(sect)
      finally:
          self.build_wizard_fragment = False

      return u'\n\n'.join(rv)
  \<close>
  The host framework enters at two calls, which are parameters of the model:
  \<open>get_and_resolve_doctree\<close> reads the pickled doctree of a document and raises where the
  file is missing, and the document writer turns a node into a fragment. The writer runs
  under the settings that \<^verbatim>\<open>_build_node\<close> sets for it (header level 2, inline colours, the
  wizard flag, the current document), the same at every call but for the document, so
  that its fragment is a function of the document and the node. A doctree is kept as
  what \<^verbatim>\<open>doctree.traverse(section)\<close> yields, its section nodes in document order.
  Two library functions of strings, \<^verbatim>\<open>str.title\<close> and \<^verbatim>\<open>urljoin\<close>, are parameters too.
  The settings that the code changes and restores are the state. The body of the loop
  over the snippets is \<open>build_snippet\<close>, with the two statements that split the snippet
  and look the doctree up in \<^verbatim>\<open>trees\<close> as \<open>split_snippet\<close> and \<open>fetch_doctree\<close>.
\<close>

datatype section_node = Section (sect_ids: "string list") (sect_source: string)

type_synonym doctree = "section_node list"

datatype formatter_arg = ArgBool bool | ArgStr string

record wizard_builder =
  build_wizard_fragment :: bool
  initial_header_level :: int
  formatter_args :: "(string \<times> formatter_arg) list"
  current_docname :: string

record host =
  get_and_resolve_doctree :: "string \<Rightarrow> exn + doctree"
  docwriter_fragment :: "string \<Rightarrow> section_node \<Rightarrow> exn + string"
  str_title :: "string \<Rightarrow> string"
  urljoin :: "string \<Rightarrow> string \<Rightarrow> string"

definition EXTERNAL_DOCS_URL :: string where
  "EXTERNAL_DOCS_URL = ''https://docs.getsentry.com/hosted/''"

definition posixpath_join :: "string \<Rightarrow> string \<Rightarrow> string" where
  "posixpath_join a b =
     (if b \<noteq> [] \<and> hd b = CHR ''/'' then b
      else if a = [] \<or> last a = CHR ''/'' then a @ b
      else a @ ''/'' @ b)"

fun str_join :: "string \<Rightarrow> string list \<Rightarrow> string" where
  "str_join sep [] = []"
| "str_join sep [x] = x"
| "str_join sep (x # y # ys) = x @ sep @ str_join sep (y # ys)"

definition build_node ::
  "host \<Rightarrow> string \<Rightarrow> section_node \<Rightarrow> string list \<Rightarrow> wizard_builder \<Rightarrow>
   (exn + string list) \<times> wizard_builder"
where
  "build_node h docname node rv s =
     (let original_header_level = initial_header_level s;
          s1 = s\<lparr>initial_header_level := 2\<rparr>;
          original_args = formatter_args s1;
          s2 = s1\<lparr>formatter_args := AList.update ''noclasses'' (ArgBool True) original_args\<rparr>;
          s3 = s2\<lparr>current_docname := docname\<rparr>;
          s4 = s3\<lparr>formatter_args := original_args,
                  initial_header_level := original_header_level\<rparr>
      in case docwriter_fragment h docname node of
           Inl e \<Rightarrow> (Inl e, s4)
         | Inr fragment \<Rightarrow> (Inr (rv @ [fragment]), s4))"

fun build_sections ::
  "host \<Rightarrow> string \<Rightarrow> string \<Rightarrow> section_node list \<Rightarrow> string list \<Rightarrow> wizard_builder \<Rightarrow>
   (exn + string list) \<times> wizard_builder"
where
  "build_sections h docname section_name [] rv s = (Inr rv, s)"
| "build_sections h docname section_name (sect # sects) rv s =
     (if section_name \<in> set (sect_ids sect)
      then (case build_node h docname sect rv s of
              (Inl e, s') \<Rightarrow> (Inl e, s')
            | (Inr rv', s') \<Rightarrow> build_sections h docname section_name sects rv' s')
      else build_sections h docname section_name sects rv s)"

definition split_snippet :: "string \<Rightarrow> string \<times> string option" where
  "split_snippet snippet =
     (if CHR ''#'' \<notin> set snippet then (snippet, None)
      else (case split_once (CHR ''#'') snippet of (p, n) \<Rightarrow> (p, Some n)))"

definition fetch_doctree ::
  "host \<Rightarrow> (string \<times> doctree) list \<Rightarrow> string \<Rightarrow> exn + doctree \<times> (string \<times> doctree) list"
where
  "fetch_doctree h trees docname =
     (case map_of trees docname of
        Some t \<Rightarrow> Inr (t, trees)
      | None \<Rightarrow>
          (case get_and_resolve_doctree h docname of
             Inl e \<Rightarrow> Inl e
           | Inr t \<Rightarrow> Inr (t, AList.update docname t trees)))"

definition build_snippet ::
  "host \<Rightarrow> string \<Rightarrow> string \<Rightarrow> (string \<times> doctree) list \<Rightarrow> string list \<Rightarrow> wizard_builder \<Rightarrow>
   (exn + (string \<times> doctree) list \<times> string list) \<times> wizard_builder"
where
  "build_snippet h base_path snippet trees rv s =
     (case split_snippet snippet of
        (snippet_path, section_name) \<Rightarrow>
          (let docname = posixpath_join base_path snippet_path
           in case fetch_doctree h trees docname of
                Inl e \<Rightarrow> (Inl e, s)
              | Inr (doctree, trees') \<Rightarrow>
                  (case (case section_name of
                           None \<Rightarrow>
                             (case doctree of
                                [] \<Rightarrow> (Inl StopIteration, s)
                              | sect # _ \<Rightarrow> build_node h docname sect rv s)
                         | Some name \<Rightarrow> build_sections h docname name doctree rv s) of
                     (Inl e, s') \<Rightarrow> (Inl e, s')
                   | (Inr rv', s') \<Rightarrow> (Inr (trees', rv'), s'))))"

fun build_snippets ::
  "host \<Rightarrow> string \<Rightarrow> string list \<Rightarrow> (string \<times> doctree) list \<Rightarrow> string list \<Rightarrow>
   wizard_builder \<Rightarrow> (exn + string list) \<times> wizard_builder"
where
  "build_snippets h base_path [] trees rv s = (Inr rv, s)"
| "build_snippets h base_path (snippet # snippets) trees rv s =
     (case build_snippet h base_path snippet trees rv s of
        (Inl e, s') \<Rightarrow> (Inl e, s')
      | (Inr (trees', rv'), s') \<Rightarrow> build_snippets h base_path snippets trees' rv' s')"

definition build_wizard_section ::
  "host \<Rightarrow> string \<Rightarrow> string list \<Rightarrow> wizard_builder \<Rightarrow> (exn + string) \<times> wizard_builder"
where
  "build_wizard_section h base_path snippets s =
     (case build_snippets h base_path snippets [] [] (s\<lparr>build_wizard_fragment := True\<rparr>) of
        (Inl e, s') \<Rightarrow> (Inl e, s'\<lparr>build_wizard_fragment := False\<rparr>)
      | (Inr rv, s') \<Rightarrow>
          (Inr (str_join [CHR 0x0A, CHR 0x0A] rv), s'\<lparr>build_wizard_fragment := False\<rparr>))"

text \<open>
  \<^verbatim>\<open>
  def __process_platform(self, data, base_path):
      rv = {}
      for uid, platform_data in data.get('platforms', {}).iteritems():
          try:
              body = self.__build_wizard_section(base_path,
                                                 platform_data['wizard'])
          except IOError as e:
              print >> sys.stderr, 'Failed to build wizard "%s" (%s)' % (uid, e)
              continue
          doc_link = platform_data.get('doc_link')
          if doc_link is not None:
              doc_link = urljoin(EXTERNAL_DOCS_URL,
                                 posixpath.join(base_path, doc_link))
          rv[uid] = {
              'name': platform_data.get('name') or uid.title(),
              'type': platform_data.get('type') or 'generic',
              'doc_link': doc_link,
              'support_level': data.get('support_level'),
              'body': body,
          }
      return rv
  \<close>
  \<open>data\<close> is the parsed sidecar configuration: a JSON object whose sections may be absent
  (\<open>None\<close>). The items of \<^verbatim>\<open>data['platforms']\<close> are kept in the order of the iteration.
  The function returns its result, or the exception that leaves it, with the lines
  printed to the error stream and the builder.
\<close>

record platform_data =
  pd_wizard :: "string list option"
  pd_doc_link :: "string option"
  pd_name :: "string option"
  pd_type :: "string option"

record sidecar =
  cfg_platforms :: "(string \<times> platform_data) list option"
  cfg_support_level :: "string option"
  cfg_vars :: "(string \<times> string) list option"

definition failed_wizard :: "string \<Rightarrow> string \<Rightarrow> string" where
  "failed_wizard uid e =
     ''Failed to build wizard '' @ [CHR 0x22] @ uid @ [CHR 0x22] @ '' ('' @ e @ '')''"

definition platform_entry_of ::
  "host \<Rightarrow> 'x sidecar_scheme \<Rightarrow> string \<Rightarrow> string \<Rightarrow> platform_data \<Rightarrow> string \<Rightarrow>
   platform_entry"
where
  "platform_entry_of h data base_path uid pd body =
     (let doc_link = (case pd_doc_link pd of
                        None \<Rightarrow> None
                      | Some l \<Rightarrow> Some (urljoin h EXTERNAL_DOCS_URL (posixpath_join base_path l)))
      in \<lparr>pf_name = (case pd_name pd of
                       None \<Rightarrow> str_title h uid
                     | Some n \<Rightarrow> if n = [] then str_title h uid else n),
          pf_type = (case pd_type pd of
                       None \<Rightarrow> ''generic''
                     | Some t \<Rightarrow> if t = [] then ''generic'' else t),
          pf_doc_link = doc_link,
          pf_support_level = cfg_support_level data,
          pf_body = body\<rparr>)"

fun process_platform_loop ::
  "host \<Rightarrow> 'x sidecar_scheme \<Rightarrow> string \<Rightarrow> (string \<times> platform_data) list \<Rightarrow>
   (string \<times> platform_entry) list \<Rightarrow> string list \<Rightarrow> wizard_builder \<Rightarrow>
   (exn + (string \<times> platform_entry) list) \<times> string list \<times> wizard_builder"
where
  "process_platform_loop h data base_path [] rv stderr s = (Inr rv, stderr, s)"
| "process_platform_loop h data base_path ((uid, pd) # items) rv stderr s =
     (case pd_wizard pd of
        None \<Rightarrow> (Inl (KeyError ''wizard''), stderr, s)
      | Some snippets \<Rightarrow>
          (case build_wizard_section h base_path snippets s of
             (Inl (IOError e), s') \<Rightarrow>
               process_platform_loop h data base_path items rv
                 (stderr @ [failed_wizard uid e]) s'
           | (Inl e, s') \<Rightarrow> (Inl e, stderr, s')
           | (Inr body, s') \<Rightarrow>
               process_platform_loop h data base_path items
                 (AList.update uid (platform_entry_of h data base_path uid pd body) rv)
                 stderr s'))"

definition process_platform ::
  "host \<Rightarrow> 'x sidecar_scheme \<Rightarrow> string \<Rightarrow> wizard_builder \<Rightarrow>
   (exn + (string \<times> platform_entry) list) \<times> string list \<times> wizard_builder"
where
  "process_platform h data base_path s =
     process_platform_loop h data base_path
       (case cfg_platforms data of None \<Rightarrow> [] | Some items \<Rightarrow> items) [] [] s"

subsection \<open>What building a wizard section returns\<close>

text \<open>
  The plain result of each step: what it returns does not depend on the builder it
  starts from, and the builder it leaves differs from that one in the current document
  only.
\<close>

definition node_result :: "host \<Rightarrow> string \<Rightarrow> section_node \<Rightarrow> string list \<Rightarrow> exn + string list"
where
  "node_result h docname node rv =
     (case docwriter_fragment h docname node of
        Inl e \<Rightarrow> Inl e
      | Inr fragment \<Rightarrow> Inr (rv @ [fragment]))"

definition settings_kept :: "wizard_builder \<Rightarrow> wizard_builder \<Rightarrow> bool" where
  "settings_kept s s' \<longleftrightarrow>
     build_wizard_fragment s' = build_wizard_fragment s \<and>
     initial_header_level s' = initial_header_level s \<and>
     formatter_args s' = formatter_args s"

definition cached :: "host \<Rightarrow> (string \<times> doctree) list \<Rightarrow> bool" where
  "cached h trees \<longleftrightarrow>
     (\<forall>d t. map_of trees d = Some t \<longrightarrow> get_and_resolve_doctree h d = Inr t)"

lemma posixpath_join_spec:
  "posixpath_join a b =
     (if take 1 b = ''/'' then b
      else if a = [] \<or> (\<exists>a'. a = a' @ ''/'') then a @ b
      else a @ ''/'' @ b)"
proof -
  have hd: "(b \<noteq> [] \<and> hd b = CHR ''/'') \<longleftrightarrow> take 1 b = ''/''"
    by (cases b) auto
  have lst: "a \<noteq> [] \<Longrightarrow> (last a = CHR ''/'') \<longleftrightarrow> (\<exists>a'. a = a' @ ''/'')"
    by (metis append_butlast_last_id last_snoc)
  show ?thesis
    unfolding posixpath_join_def hd using lst by (cases "a = []") simp_all
qed

lemma split_snippet_path: "fst (split_snippet snippet) = takeWhile (\<lambda>c. c \<noteq> CHR ''#'') snippet"
proof (cases "CHR ''#'' \<in> set snippet")
  case True
  then show ?thesis by (simp add: split_snippet_def split_once_def)
next
  case False
  then have tw: "takeWhile (\<lambda>c. c \<noteq> CHR ''#'') snippet = snippet"
    by (intro takeWhile_eq_all_conv [THEN iffD2]) auto
  show ?thesis unfolding tw using False by (simp add: split_snippet_def)
qed

lemma split_snippet_name:
  "snd (split_snippet snippet) =
     (if CHR ''#'' \<in> set snippet
      then Some (drop (Suc (length (takeWhile (\<lambda>c. c \<noteq> CHR ''#'') snippet))) snippet)
      else None)"
proof (cases "CHR ''#'' \<in> set snippet")
  case False
  then show ?thesis by (simp add: split_snippet_def)
next
  case True
  have "dropWhile (\<lambda>c. c \<noteq> CHR ''#'') snippet =
          drop (length (takeWhile (\<lambda>c. c \<noteq> CHR ''#'') snippet)) snippet"
    by (rule dropWhile_eq_drop)
  then show ?thesis using True
    by (simp add: split_snippet_def split_once_def)
qed

lemma build_node_eq:
  "build_node h docname node rv s = (node_result h docname node rv, s\<lparr>current_docname := docname\<rparr>)"
  by (simp add: build_node_def node_result_def Let_def split: sum.splits)

lemma settings_kept_refl: "settings_kept s s"
  by (simp add: settings_kept_def)

lemma settings_kept_trans: "settings_kept s s' \<Longrightarrow> settings_kept s' s'' \<Longrightarrow> settings_kept s s''"
  by (simp add: settings_kept_def)

lemma settings_kept_docname: "settings_kept s (s\<lparr>current_docname := d\<rparr>)"
  by (simp add: settings_kept_def)

lemma build_sections_indep:
  "fst (build_sections h d n sects rv s) = fst (build_sections h d n sects rv s')"
proof (induction sects arbitrary: rv s s')
  case Nil
  show ?case by simp
next
  case (Cons sect sects)
  show ?case
    by (cases "node_result h d sect rv")
       (simp_all add: build_node_eq Cons.IH [of _ "s\<lparr>current_docname := d\<rparr>" "s'\<lparr>current_docname := d\<rparr>"]
          Cons.IH [of rv s s'])
qed

lemma build_sections_kept:
  "settings_kept s (snd (build_sections h d n sects rv s))"
proof (induction sects arbitrary: rv s)
  case Nil
  show ?case by (simp add: settings_kept_refl)
next
  case (Cons sect sects)
  have step: "settings_kept s (snd (build_sections h d n sects rv' (s\<lparr>current_docname := d\<rparr>)))"
    for rv'
    by (rule settings_kept_trans [OF settings_kept_docname Cons.IH])
  show ?case
    by (cases "node_result h d sect rv")
       (simp_all add: build_node_eq Cons.IH step settings_kept_docname)
qed

lemma fst_case_result:
  "fst (case p of (Inl e, s') \<Rightarrow> (Inl e, g s') | (Inr r, s') \<Rightarrow> (Inr (f r), g' s')) =
     (case fst p of Inl e \<Rightarrow> Inl e | Inr r \<Rightarrow> Inr (f r))"
  by (cases p; cases "fst p") auto

lemma snd_case_result:
  "snd (case p of (Inl e, s') \<Rightarrow> (Inl e, g s') | (Inr r, s') \<Rightarrow> (Inr (f r), g s')) = g (snd p)"
  by (cases p; cases "fst p") auto

lemma build_snippet_indep:
  "fst (build_snippet h bp snippet trees rv s) = fst (build_snippet h bp snippet trees rv s')"
proof -
  obtain p n where sp: "split_snippet snippet = (p, n)" by (cases "split_snippet snippet")
  show ?thesis
  proof (cases "fetch_doctree h trees (posixpath_join bp p)")
    case (Inl e)
    then show ?thesis by (simp add: build_snippet_def Let_def sp)
  next
    case (Inr r)
    obtain doctree trees' where r: "r = (doctree, trees')" by (cases r)
    show ?thesis
    proof (cases n)
      case None
      then show ?thesis
        by (cases doctree)
           (simp_all add: build_snippet_def Let_def sp Inr r build_node_eq split: sum.splits)
    next
      case (Some name)
      then show ?thesis
        using build_sections_indep [of h "posixpath_join bp p" name doctree rv s s']
        by (simp add: build_snippet_def Let_def sp Inr r fst_case_result)
    qed
  qed
qed

lemma build_snippet_kept:
  "settings_kept s (snd (build_snippet h bp snippet trees rv s))"
proof -
  obtain p n where sp: "split_snippet snippet = (p, n)" by (cases "split_snippet snippet")
  show ?thesis
  proof (cases "fetch_doctree h trees (posixpath_join bp p)")
    case (Inl e)
    then show ?thesis by (simp add: build_snippet_def Let_def sp settings_kept_refl)
  next
    case (Inr r)
    obtain doctree trees' where r: "r = (doctree, trees')" by (cases r)
    show ?thesis
    proof (cases n)
      case None
      then show ?thesis
        by (cases doctree)
           (simp_all add: build_snippet_def Let_def sp Inr r build_node_eq
              settings_kept_refl settings_kept_docname split: sum.splits)
    next
      case (Some name)
      then show ?thesis
        by (simp add: build_snippet_def Let_def sp Inr r snd_case_result build_sections_kept)
    qed
  qed
qed

lemma fetch_doctree_cached:
  assumes "cached h trees" and "fetch_doctree h trees d = Inr (t, trees')"
  shows "cached h trees'"
proof (cases "map_of trees d")
  case (Some t')
  with assms show ?thesis by (simp add: fetch_doctree_def)
next
  case None
  with assms(2) have g: "get_and_resolve_doctree h d = Inr t" and t: "trees' = AList.update d t trees"
    by (auto simp: fetch_doctree_def split: sum.splits)
  show ?thesis
    unfolding cached_def t
  proof (intro allI impI)
    fix d' t' assume "map_of (AList.update d t trees) d' = Some t'"
    then have "(d' = d \<and> t' = t) \<or> (d' \<noteq> d \<and> map_of trees d' = Some t')"
      by (simp add: update_conv' split: if_splits)
    with g assms(1) show "get_and_resolve_doctree h d' = Inr t'"
      by (auto simp: cached_def)
  qed
qed

lemma fetch_doctree_missing:
  assumes "cached h trees" and "get_and_resolve_doctree h d = Inl e"
  shows "fetch_doctree h trees d = Inl e"
proof (cases "map_of trees d")
  case None
  with assms(2) show ?thesis by (simp add: fetch_doctree_def)
next
  case (Some t)
  with assms(1) have "get_and_resolve_doctree h d = Inr t" by (simp add: cached_def)
  with assms(2) show ?thesis by simp
qed

lemma build_snippet_cached:
  assumes "cached h trees" and "fst (build_snippet h bp snippet trees rv s) = Inr (trees', rv')"
  shows "cached h trees'"
proof -
  obtain p n where sp: "split_snippet snippet = (p, n)" by (cases "split_snippet snippet")
  show ?thesis
  proof (cases "fetch_doctree h trees (posixpath_join bp p)")
    case (Inl e)
    with assms(2) show ?thesis by (simp add: build_snippet_def Let_def sp)
  next
    case (Inr r)
    obtain doctree t where r: "r = (doctree, t)" by (cases r)
    from assms(2) have "t = trees'"
      by (simp add: build_snippet_def Let_def sp Inr r fst_case_result [where g = "\<lambda>x. x"]
            split: sum.splits)
    with fetch_doctree_cached [OF assms(1)] Inr r show ?thesis by simp
  qed
qed

lemma build_snippet_missing:
  assumes "cached h trees"
    and "get_and_resolve_doctree h
           (posixpath_join bp (takeWhile (\<lambda>c. c \<noteq> CHR ''#'') snippet)) = Inl e"
  shows "build_snippet h bp snippet trees rv s = (Inl e, s)"
proof -
  obtain p n where sp: "split_snippet snippet = (p, n)" by (cases "split_snippet snippet")
  with split_snippet_path [of snippet] have p: "p = takeWhile (\<lambda>c. c \<noteq> CHR ''#'') snippet"
    by simp
  from fetch_doctree_missing [OF assms(1) assms(2)] show ?thesis
    by (simp add: build_snippet_def Let_def sp p)
qed

lemma build_snippets_indep:
  "fst (build_snippets h bp snippets trees rv s) = fst (build_snippets h bp snippets trees rv s')"
proof (induction snippets arbitrary: trees rv s s')
  case Nil
  show ?case by simp
next
  case (Cons snippet snippets)
  obtain r s1 where a: "build_snippet h bp snippet trees rv s = (r, s1)"
    by (cases "build_snippet h bp snippet trees rv s")
  obtain r' s1' where b: "build_snippet h bp snippet trees rv s' = (r', s1')"
    by (cases "build_snippet h bp snippet trees rv s'")
  from build_snippet_indep [of h bp snippet trees rv s s'] a b have rr: "r' = r" by simp
  show ?case
  proof (cases r)
    case (Inl e)
    then show ?thesis by (simp add: a b rr)
  next
    case (Inr q)
    obtain t v where q: "q = (t, v)" by (cases q)
    show ?thesis by (simp add: a b rr Inr q Cons.IH [of t v s1 s1'])
  qed
qed

lemma build_snippets_kept:
  "settings_kept s (snd (build_snippets h bp snippets trees rv s))"
proof (induction snippets arbitrary: trees rv s)
  case Nil
  show ?case by (simp add: settings_kept_refl)
next
  case (Cons snippet snippets)
  obtain r s1 where a: "build_snippet h bp snippet trees rv s = (r, s1)"
    by (cases "build_snippet h bp snippet trees rv s")
  from build_snippet_kept [of s h bp snippet trees rv] a have k: "settings_kept s s1" by simp
  show ?case
  proof (cases r)
    case (Inl e)
    then show ?thesis by (simp add: a k)
  next
    case (Inr q)
    obtain t v where q: "q = (t, v)" by (cases q)
    from settings_kept_trans [OF k Cons.IH [of s1 t v]] show ?thesis by (simp add: a Inr q)
  qed
qed

lemma build_snippets_missing:
  assumes "cached h trees"
    and "fst (build_snippets h bp built trees rv s) = Inr b"
    and "get_and_resolve_doctree h
           (posixpath_join bp (takeWhile (\<lambda>c. c \<noteq> CHR ''#'') snippet)) = Inl e"
  shows "fst (build_snippets h bp (built @ snippet # rest) trees rv s) = Inl e"
  using assms(1,2)
proof (induction built arbitrary: trees rv s)
  case Nil
  from build_snippet_missing [OF Nil(1) assms(3)] show ?case by simp
next
  case (Cons x built)
  obtain r s1 where a: "build_snippet h bp x trees rv s = (r, s1)"
    by (cases "build_snippet h bp x trees rv s")
  show ?case
  proof (cases r)
    case (Inl e')
    with Cons.prems(2) a show ?thesis by simp
  next
    case (Inr q)
    obtain t v where q: "q = (t, v)" by (cases q)
    from a Inr q have "fst (build_snippet h bp x trees rv s) = Inr (t, v)" by simp
    from build_snippet_cached [OF Cons.prems(1) this] have c: "cached h t" .
    from Cons.prems(2) a Inr q have "fst (build_snippets h bp built t v s1) = Inr b" by simp
    from Cons.IH [OF c this] show ?thesis by (simp add: a Inr q)
  qed
qed

lemma build_wizard_section_indep:
  "fst (build_wizard_section h bp snippets s) = fst (build_wizard_section h bp snippets s')"
  using build_snippets_indep [of h bp snippets "[]" "[]" "s\<lparr>build_wizard_fragment := True\<rparr>"
      "s'\<lparr>build_wizard_fragment := True\<rparr>"]
  by (simp add: build_wizard_section_def fst_case_result)

lemma build_wizard_section_fst:
  "fst (build_wizard_section h bp snippets s) =
     (case fst (build_snippets h bp snippets [] [] (s\<lparr>build_wizard_fragment := True\<rparr>)) of
        Inl e \<Rightarrow> Inl e
      | Inr rv \<Rightarrow> Inr (str_join [CHR 0x0A, CHR 0x0A] rv))"
  by (simp add: build_wizard_section_def fst_case_result)

lemma build_wizard_section_state:
  "build_wizard_fragment (snd (build_wizard_section h bp snippets s)) = False \<and>
   initial_header_level (snd (build_wizard_section h bp snippets s)) = initial_header_level s \<and>
   formatter_args (snd (build_wizard_section h bp snippets s)) = formatter_args s"
proof -
  let ?p = "build_snippets h bp snippets [] [] (s\<lparr>build_wizard_fragment := True\<rparr>)"
  have k: "settings_kept (s\<lparr>build_wizard_fragment := True\<rparr>) (snd ?p)"
    by (rule build_snippets_kept)
  have "snd (build_wizard_section h bp snippets s) = (snd ?p)\<lparr>build_wizard_fragment := False\<rparr>"
    by (cases ?p; cases "fst ?p") (auto simp: build_wizard_section_def)
  with k show ?thesis by (simp add: settings_kept_def)
qed

lemma build_wizard_section_missing:
  assumes "fst (build_wizard_section h bp built s) = Inr b"
    and "get_and_resolve_doctree h
           (posixpath_join bp (takeWhile (\<lambda>c. c \<noteq> CHR ''#'') snippet)) = Inl e"
  shows "fst (build_wizard_section h bp (built @ snippet # rest) s) = Inl e"
proof -
  from assms(1) obtain rv where
    "fst (build_snippets h bp built [] [] (s\<lparr>build_wizard_fragment := True\<rparr>)) = Inr rv"
    by (auto simp: build_wizard_section_fst split: sum.splits)
  from build_snippets_missing [OF _ this assms(2), of rest] show ?thesis
    by (simp add: build_wizard_section_fst cached_def)
qed

subsection \<open>What the loop over the platforms returns\<close>

text \<open>
  The result and the printed lines of \<open>process_platform_loop\<close> without the builder: each
  platform counts through what building its wizard returns, which is the same from every
  builder.
\<close>

definition wizard_outcome :: "host \<Rightarrow> string \<Rightarrow> platform_data \<Rightarrow> exn + string" where
  "wizard_outcome h bp pd =
     (case pd_wizard pd of
        None \<Rightarrow> Inl (KeyError ''wizard'')
      | Some snippets \<Rightarrow>
          fst (build_wizard_section h bp snippets
                 \<lparr>build_wizard_fragment = False, initial_header_level = 0,
                  formatter_args = [], current_docname = []\<rparr>))"

fun platform_results ::
  "host \<Rightarrow> 'x sidecar_scheme \<Rightarrow> string \<Rightarrow> (string \<times> platform_data) list \<Rightarrow>
   (string \<times> platform_entry) list \<Rightarrow> string list \<Rightarrow>
   (exn + (string \<times> platform_entry) list) \<times> string list"
where
  "platform_results h data bp [] rv err = (Inr rv, err)"
| "platform_results h data bp ((uid, pd) # items) rv err =
     (case wizard_outcome h bp pd of
        Inl x \<Rightarrow>
          (case x of
             IOError e \<Rightarrow> platform_results h data bp items rv (err @ [failed_wizard uid e])
           | _ \<Rightarrow> (Inl x, err))
      | Inr body \<Rightarrow>
          platform_results h data bp items
            (AList.update uid (platform_entry_of h data bp uid pd body) rv) err)"

lemma wizard_outcome_eq:
  "pd_wizard pd = Some snippets \<Longrightarrow>
   fst (build_wizard_section h bp snippets s) = wizard_outcome h bp pd"
  by (simp add: wizard_outcome_def build_wizard_section_indep [of h bp snippets s])

lemma process_platform_loop_results:
  "(fst (process_platform_loop h data bp items rv err s),
    fst (snd (process_platform_loop h data bp items rv err s))) =
   platform_results h data bp items rv err"
proof (induction items arbitrary: rv err s)
  case Nil
  show ?case by simp
next
  case (Cons item items)
  obtain uid pd where item: "item = (uid, pd)" by (cases item)
  show ?case
  proof (cases "pd_wizard pd")
    case None
    then show ?thesis by (simp add: item wizard_outcome_def)
  next
    case (Some snippets)
    obtain r s' where b: "build_wizard_section h bp snippets s = (r, s')"
      by (cases "build_wizard_section h bp snippets s")
    with wizard_outcome_eq [OF Some, of h bp s] have o: "wizard_outcome h bp pd = r" by simp
    show ?thesis
    proof (cases r)
      case (Inl x)
      then show ?thesis
        by (cases x) (simp_all add: item Some b o Cons.IH)
    next
      case (Inr body)
      then show ?thesis by (simp add: item Some b o Cons.IH)
    qed
  qed
qed

lemma process_platform_loop_settings:
  "initial_header_level (snd (snd (process_platform_loop h data bp items rv err s))) =
     initial_header_level s \<and>
   formatter_args (snd (snd (process_platform_loop h data bp items rv err s))) =
     formatter_args s"
proof (induction items arbitrary: rv err s)
  case Nil
  show ?case by simp
next
  case (Cons item items)
  obtain uid pd where item: "item = (uid, pd)" by (cases item)
  show ?case
  proof (cases "pd_wizard pd")
    case None
    then show ?thesis by (simp add: item)
  next
    case (Some snippets)
    obtain r s' where b: "build_wizard_section h bp snippets s = (r, s')"
      by (cases "build_wizard_section h bp snippets s")
    with build_wizard_section_state [of h bp snippets s]
    have k: "initial_header_level s' = initial_header_level s" "formatter_args s' = formatter_args s"
      by simp_all
    show ?thesis
    proof (cases r)
      case (Inl x)
      then show ?thesis
        by (cases x) (simp_all add: item Some b k Cons.IH)
    next
      case (Inr body)
      then show ?thesis by (simp add: item Some b k Cons.IH)
    qed
  qed
qed

lemma platform_results_io:
  "wizard_outcome h bp pd = Inl (IOError e) \<Longrightarrow>
   platform_results h data bp ((uid, pd) # items) rv err =
     platform_results h data bp items rv (err @ [failed_wizard uid e])"
  by simp

lemma platform_results_ok:
  "wizard_outcome h bp pd = Inr body \<Longrightarrow>
   platform_results h data bp ((uid, pd) # items) rv err =
     platform_results h data bp items
       (AList.update uid (platform_entry_of h data bp uid pd body) rv) err"
  by simp

lemma platform_results_raise:
  "wizard_outcome h bp pd = Inl x \<Longrightarrow> \<forall>e. x \<noteq> IOError e \<Longrightarrow>
   platform_results h data bp ((uid, pd) # items) rv err = (Inl x, err)"
  by (cases x) simp_all

lemma platform_results_fst:
  "fst (platform_results h data bp items rv err) = fst (platform_results h data bp items rv err')"
proof (induction items arbitrary: rv err err')
  case Nil
  show ?case by simp
next
  case (Cons item items)
  obtain uid pd where item: "item = (uid, pd)" by (cases item)
  show ?case
  proof (cases "wizard_outcome h bp pd")
    case (Inl x)
    show ?thesis
    proof (cases "\<exists>e. x = IOError e")
      case True
      then obtain e where x: "x = IOError e" by (elim exE)
      from Inl x have o: "wizard_outcome h bp pd = Inl (IOError e)" by simp
      show ?thesis
        unfolding item platform_results_io [OF o]
        by (rule Cons.IH)
    next
      case False
      then have nx: "\<forall>e. x \<noteq> IOError e" by simp
      show ?thesis
        unfolding item platform_results_raise [OF Inl nx] by simp
    qed
  next
    case (Inr body)
    show ?thesis
      unfolding item platform_results_ok [OF Inr]
      by (rule Cons.IH)
  qed
qed

lemma platform_results_without:
  assumes "wizard_outcome h bp pd = Inl (IOError e)"
  shows "fst (platform_results h data bp (pre @ (uid, pd) # post) rv err) =
         fst (platform_results h data bp (pre @ post) rv err)"
proof (induction pre arbitrary: rv err)
  case Nil
  show ?case
    unfolding append_Nil platform_results_io [OF assms]
    by (rule platform_results_fst)
next
  case (Cons item pre)
  obtain u p where item: "item = (u, p)" by (cases item)
  show ?case
  proof (cases "wizard_outcome h bp p")
    case (Inl x)
    show ?thesis
    proof (cases "\<exists>e. x = IOError e")
      case True
      then obtain e' where x: "x = IOError e'" by (elim exE)
      from Inl x have o: "wizard_outcome h bp p = Inl (IOError e')" by simp
      show ?thesis
        unfolding item append_Cons platform_results_io [OF o]
        by (rule Cons.IH)
    next
      case False
      then have nx: "\<forall>e. x \<noteq> IOError e" by simp
      show ?thesis
        unfolding item append_Cons platform_results_raise [OF Inl nx] ..
    qed
  next
    case (Inr body)
    show ?thesis
      unfolding item append_Cons platform_results_ok [OF Inr]
      by (rule Cons.IH)
  qed
qed

lemma platform_results_returns:
  assumes "\<forall>uid pd. (uid, pd) \<in> set items \<longrightarrow>
             (\<exists>body. wizard_outcome h bp pd = Inr body) \<or>
             (\<exists>e. wizard_outcome h bp pd = Inl (IOError e))"
  shows "\<exists>rv'. fst (platform_results h data bp items rv err) = Inr rv'"
  using assms
proof (induction items arbitrary: rv err)
  case Nil
  show ?case by simp
next
  case (Cons item items)
  obtain uid pd where item: "item = (uid, pd)" by (cases item)
  from Cons.prems have rest: "\<forall>uid pd. (uid, pd) \<in> set items \<longrightarrow>
             (\<exists>body. wizard_outcome h bp pd = Inr body) \<or>
             (\<exists>e. wizard_outcome h bp pd = Inl (IOError e))"
    by simp
  from Cons.prems item have "(\<exists>body. wizard_outcome h bp pd = Inr body) \<or>
             (\<exists>e. wizard_outcome h bp pd = Inl (IOError e))"
    by simp
  then show ?case
  proof (elim disjE exE)
    fix body assume o: "wizard_outcome h bp pd = Inr body"
    show ?thesis
      unfolding item platform_results_ok [OF o]
      by (rule Cons.IH [OF rest])
  next
    fix e assume o: "wizard_outcome h bp pd = Inl (IOError e)"
    show ?thesis
      unfolding item platform_results_io [OF o]
      by (rule Cons.IH [OF rest])
  qed
qed

lemma platform_results_entries:
  assumes "platform_results h data bp items rv err = (Inr rv', log)"
    and "distinct (map fst items)"
  shows "set err \<subseteq> set log \<and>
         (\<forall>u. u \<notin> fst ` set items \<longrightarrow> map_of rv' u = map_of rv u) \<and>
         (\<forall>uid pd. (uid, pd) \<in> set items \<longrightarrow>
            (\<forall>e. wizard_outcome h bp pd = Inl (IOError e) \<longrightarrow>
                   failed_wizard uid e \<in> set log \<and> map_of rv' uid = map_of rv uid) \<and>
            (\<forall>body. wizard_outcome h bp pd = Inr body \<longrightarrow>
                   map_of rv' uid = Some (platform_entry_of h data bp uid pd body)))"
  using assms
proof (induction items arbitrary: rv err)
  case Nil
  then show ?case by simp
next
  case (Cons item items)
  obtain u0 p0 where item: "item = (u0, p0)" by (cases item)
  from Cons.prems(2) item have d: "distinct (map fst items)" and fresh: "u0 \<notin> fst ` set items"
    by simp_all
  show ?case
  proof (cases "wizard_outcome h bp p0")
    case (Inl x)
    show ?thesis
    proof (cases "\<exists>e. x = IOError e")
      case False
      then have nx: "\<forall>e. x \<noteq> IOError e" by simp
      from Cons.prems(1) show ?thesis
        unfolding item platform_results_raise [OF Inl nx] by simp
    next
      case True
      then obtain e0 where x: "x = IOError e0" by (elim exE)
      from Inl x have o: "wizard_outcome h bp p0 = Inl (IOError e0)" by simp
      from Cons.prems(1) have run:
        "platform_results h data bp items rv (err @ [failed_wizard u0 e0]) = (Inr rv', log)"
        unfolding item platform_results_io [OF o] .
      note ih = Cons.IH [OF run d]
      from ih have sub: "set (err @ [failed_wizard u0 e0]) \<subseteq> set log" by (elim conjE)
      from ih have out: "\<forall>u. u \<notin> fst ` set items \<longrightarrow> map_of rv' u = map_of rv u"
        by (elim conjE)
      from ih have ins: "\<forall>uid pd. (uid, pd) \<in> set items \<longrightarrow>
            (\<forall>e. wizard_outcome h bp pd = Inl (IOError e) \<longrightarrow>
                   failed_wizard uid e \<in> set log \<and> map_of rv' uid = map_of rv uid) \<and>
            (\<forall>body. wizard_outcome h bp pd = Inr body \<longrightarrow>
                   map_of rv' uid = Some (platform_entry_of h data bp uid pd body))"
        by (elim conjE)
      from out fresh have u0: "map_of rv' u0 = map_of rv u0" by simp
      from sub have m0: "failed_wizard u0 e0 \<in> set log" by simp
      show ?thesis
      proof (intro conjI allI impI)
        from sub show "set err \<subseteq> set log" by simp
      next
        fix u assume "u \<notin> fst ` set (item # items)"
        with out show "map_of rv' u = map_of rv u" by simp
      next
        fix uid pd e
        assume mem: "(uid, pd) \<in> set (item # items)"
          and oe: "wizard_outcome h bp pd = Inl (IOError e)"
        show "failed_wizard uid e \<in> set log"
        proof (cases "(uid, pd) = (u0, p0)")
          case True
          with oe o m0 show ?thesis by simp
        next
          case False
          with mem item have "(uid, pd) \<in> set items" by auto
          with ins oe show ?thesis by simp
        qed
      next
        fix uid pd e
        assume mem: "(uid, pd) \<in> set (item # items)"
          and oe: "wizard_outcome h bp pd = Inl (IOError e)"
        show "map_of rv' uid = map_of rv uid"
        proof (cases "(uid, pd) = (u0, p0)")
          case True
          with u0 show ?thesis by simp
        next
          case False
          with mem item have "(uid, pd) \<in> set items" by auto
          with ins oe show ?thesis by simp
        qed
      next
        fix uid pd body
        assume mem: "(uid, pd) \<in> set (item # items)"
          and ob: "wizard_outcome h bp pd = Inr body"
        show "map_of rv' uid = Some (platform_entry_of h data bp uid pd body)"
        proof (cases "(uid, pd) = (u0, p0)")
          case True
          with ob o show ?thesis by simp
        next
          case False
          with mem item have "(uid, pd) \<in> set items" by auto
          with ins ob show ?thesis by simp
        qed
      qed
    qed
  next
    case (Inr b0)
    let ?rv = "AList.update u0 (platform_entry_of h data bp u0 p0 b0) rv"
    from Cons.prems(1) have run: "platform_results h data bp items ?rv err = (Inr rv', log)"
      unfolding item platform_results_ok [OF Inr] .
    note ih = Cons.IH [OF run d]
    from ih have sub: "set err \<subseteq> set log" by (elim conjE)
    from ih have out: "\<forall>u. u \<notin> fst ` set items \<longrightarrow> map_of rv' u = map_of ?rv u"
      by (elim conjE)
    from ih have ins: "\<forall>uid pd. (uid, pd) \<in> set items \<longrightarrow>
            (\<forall>e. wizard_outcome h bp pd = Inl (IOError e) \<longrightarrow>
                   failed_wizard uid e \<in> set log \<and> map_of rv' uid = map_of ?rv uid) \<and>
            (\<forall>body. wizard_outcome h bp pd = Inr body \<longrightarrow>
                   map_of rv' uid = Some (platform_entry_of h data bp uid pd body))"
      by (elim conjE)
    from out fresh have u0: "map_of rv' u0 = Some (platform_entry_of h data bp u0 p0 b0)"
      by (simp add: update_conv')
    have other: "uid \<noteq> u0 \<Longrightarrow> map_of ?rv uid = map_of rv uid" for uid
      by (simp add: update_conv')
    have key: "(uid, pd) \<in> set items \<Longrightarrow> uid \<noteq> u0" for uid pd
      using fresh by force
    show ?thesis
    proof (intro conjI allI impI)
      from sub show "set err \<subseteq> set log" .
    next
      fix u assume "u \<notin> fst ` set (item # items)"
      with item have "u \<notin> fst ` set items" "u \<noteq> u0" by simp_all
      with out other show "map_of rv' u = map_of rv u" by simp
    next
      fix uid pd e
      assume mem: "(uid, pd) \<in> set (item # items)"
        and oe: "wizard_outcome h bp pd = Inl (IOError e)"
      from oe Inr have "(uid, pd) \<noteq> (u0, p0)" by auto
      with mem item have "(uid, pd) \<in> set items" by auto
      with ins oe show "failed_wizard uid e \<in> set log" by simp
    next
      fix uid pd e
      assume mem: "(uid, pd) \<in> set (item # items)"
        and oe: "wizard_outcome h bp pd = Inl (IOError e)"
      from oe Inr have "(uid, pd) \<noteq> (u0, p0)" by auto
      with mem item have m: "(uid, pd) \<in> set items" by auto
      with ins oe have "map_of rv' uid = map_of ?rv uid" by simp
      with other [OF key [OF m]] show "map_of rv' uid = map_of rv uid" by simp
    next
      fix uid pd body
      assume mem: "(uid, pd) \<in> set (item # items)"
        and ob: "wizard_outcome h bp pd = Inr body"
      show "map_of rv' uid = Some (platform_entry_of h data bp uid pd body)"
      proof (cases "(uid, pd) = (u0, p0)")
        case True
        with ob Inr u0 show ?thesis by simp
      next
        case False
        with mem item have "(uid, pd) \<in> set items" by auto
        with ins ob show ?thesis by simp
      qed
    qed
  qed
qed

lemma platform_results_data:
  "platform_results h (data\<lparr>cfg_platforms := x\<rparr>) bp items rv err =
   platform_results h data bp items rv err"
proof (induction items arbitrary: rv err)
  case Nil
  show ?case by simp
next
  case (Cons item items)
  obtain uid pd where item: "item = (uid, pd)" by (cases item)
  have e: "platform_entry_of h (data\<lparr>cfg_platforms := x\<rparr>) bp uid pd body =
           platform_entry_of h data bp uid pd body" for body
    by (simp add: platform_entry_of_def)
  show ?case
  proof (cases "wizard_outcome h bp pd")
    case (Inl y)
    then show ?thesis by (cases y) (simp_all add: item Cons.IH)
  next
    case (Inr body)
    then show ?thesis by (simp add: item Cons.IH e)
  qed
qed

lemma process_platform_results:
  "cfg_platforms data = Some platforms \<Longrightarrow>
   platform_results h data bp platforms [] [] =
     (fst (process_platform h data bp s), fst (snd (process_platform h data bp s)))"
  by (simp add: process_platform_def process_platform_loop_results)

lemma platform_entry_of_fields:
  "platform_entry_of h data bp uid pd body =
     \<lparr>pf_name = (if pd_name pd = None \<or> pd_name pd = Some [] then str_title h uid
                  else the (pd_name pd)),
      pf_type = (if pd_type pd = None \<or> pd_type pd = Some [] then ''generic''
                  else the (pd_type pd)),
      pf_doc_link = map_option
        (\<lambda>l. urljoin h ''https://docs.getsentry.com/hosted/'' (posixpath_join bp l))
        (pd_doc_link pd),
      pf_support_level = cfg_support_level data,
      pf_body = body\<rparr>"
  by (simp add: platform_entry_of_def EXTERNAL_DOCS_URL_def split: option.splits)

text \<open>
  C6. A wizard whose snippets build up to one whose doctree file is missing (the host's
  \<open>get_and_resolve_doctree\<close> raises \<open>IOError\<close> for the document of the snippet, the base
  path joined with the snippet up to its \<^verbatim>\<open>#\<close>) raises that \<open>IOError\<close>, and leaves the wizard
  flag off and the header level and formatter arguments as they were. When
  \<^verbatim>\<open>__process_platform\<close> returns, every platform whose wizard raised an \<open>IOError\<close> is absent
  from the result and its line \<^verbatim>\<open>Failed to build wizard "uid" (error)\<close> is on the error
  stream, and every platform whose wizard was built has its entry. It does return when
  every wizard is built or raises an \<open>IOError\<close>. The result is the one of the same
  configuration without the failing platform. The platforms are the items of a dict: no
  two have the same identifier.
\<close>

theorem process_platform_skips_missing_wizard:
  assumes "cfg_platforms data = Some platforms" and "distinct (map fst platforms)"
  shows "(\<forall>built snippet rest e s0.
            (\<exists>body. fst (build_wizard_section h bp built s0) = Inr body) \<and>
            get_and_resolve_doctree h
              (posixpath_join bp (takeWhile (\<lambda>c. c \<noteq> CHR ''#'') snippet)) = Inl (IOError e) \<longrightarrow>
              fst (build_wizard_section h bp (built @ snippet # rest) s0) = Inl (IOError e) \<and>
              build_wizard_fragment
                (snd (build_wizard_section h bp (built @ snippet # rest) s0)) = False \<and>
              initial_header_level
                (snd (build_wizard_section h bp (built @ snippet # rest) s0)) =
                initial_header_level s0 \<and>
              formatter_args
                (snd (build_wizard_section h bp (built @ snippet # rest) s0)) =
                formatter_args s0) \<and>
         (\<forall>rv uid pd snippets e.
            fst (process_platform h data bp s) = Inr rv \<and> (uid, pd) \<in> set platforms \<and>
            pd_wizard pd = Some snippets \<and>
            fst (build_wizard_section h bp snippets s) = Inl (IOError e) \<longrightarrow>
              map_of rv uid = None \<and>
              ''Failed to build wizard '' @ [CHR 0x22] @ uid @ [CHR 0x22] @ '' ('' @ e @ '')''
                \<in> set (fst (snd (process_platform h data bp s)))) \<and>
         (\<forall>rv uid pd snippets body.
            fst (process_platform h data bp s) = Inr rv \<and> (uid, pd) \<in> set platforms \<and>
            pd_wizard pd = Some snippets \<and>
            fst (build_wizard_section h bp snippets s) = Inr body \<longrightarrow>
              map_of rv uid =
                Some \<lparr>pf_name = (if pd_name pd = None \<or> pd_name pd = Some [] then str_title h uid
                                  else the (pd_name pd)),
                      pf_type = (if pd_type pd = None \<or> pd_type pd = Some [] then ''generic''
                                  else the (pd_type pd)),
                      pf_doc_link = map_option
                        (\<lambda>l. urljoin h ''https://docs.getsentry.com/hosted/''
                               (posixpath_join bp l))
                        (pd_doc_link pd),
                      pf_support_level = cfg_support_level data,
                      pf_body = body\<rparr>) \<and>
         ((\<forall>uid pd. (uid, pd) \<in> set platforms \<longrightarrow>
             (\<exists>snippets. pd_wizard pd = Some snippets \<and>
                ((\<exists>body. fst (build_wizard_section h bp snippets s) = Inr body) \<or>
                 (\<exists>e. fst (build_wizard_section h bp snippets s) = Inl (IOError e))))) \<longrightarrow>
            (\<exists>rv. fst (process_platform h data bp s) = Inr rv)) \<and>
         (\<forall>pre uid pd post snippets e.
            platforms = pre @ (uid, pd) # post \<and> pd_wizard pd = Some snippets \<and>
            fst (build_wizard_section h bp snippets s) = Inl (IOError e) \<longrightarrow>
              fst (process_platform h data bp s) =
              fst (process_platform h (data\<lparr>cfg_platforms := Some (pre @ post)\<rparr>) bp s))"
proof (intro conjI allI impI)
  fix built snippet rest e s0
  assume a: "(\<exists>body. fst (build_wizard_section h bp built s0) = Inr body) \<and>
            get_and_resolve_doctree h
              (posixpath_join bp (takeWhile (\<lambda>c. c \<noteq> CHR ''#'') snippet)) = Inl (IOError e)"
  then obtain body where b: "fst (build_wizard_section h bp built s0) = Inr body"
    by (elim conjE exE)
  from a have g: "get_and_resolve_doctree h
              (posixpath_join bp (takeWhile (\<lambda>c. c \<noteq> CHR ''#'') snippet)) = Inl (IOError e)"
    by (elim conjE)
  show "fst (build_wizard_section h bp (built @ snippet # rest) s0) = Inl (IOError e)"
    by (rule build_wizard_section_missing [OF b g])
  note st = build_wizard_section_state [of h bp "built @ snippet # rest" s0]
  from st show "build_wizard_fragment
                (snd (build_wizard_section h bp (built @ snippet # rest) s0)) = False"
    by (elim conjE)
  from st show "initial_header_level
                (snd (build_wizard_section h bp (built @ snippet # rest) s0)) =
                initial_header_level s0"
    by (elim conjE)
  from st show "formatter_args
                (snd (build_wizard_section h bp (built @ snippet # rest) s0)) =
                formatter_args s0"
    by (elim conjE)
next
  fix rv uid pd snippets e
  assume a: "fst (process_platform h data bp s) = Inr rv \<and> (uid, pd) \<in> set platforms \<and>
            pd_wizard pd = Some snippets \<and>
            fst (build_wizard_section h bp snippets s) = Inl (IOError e)"
  then have run: "platform_results h data bp platforms [] [] =
      (Inr rv, fst (snd (process_platform h data bp s)))"
    by (simp add: process_platform_results [OF assms(1), of h bp s])
  from a have mem: "(uid, pd) \<in> set platforms" by (elim conjE)
  from a have o: "wizard_outcome h bp pd = Inl (IOError e)"
    using wizard_outcome_eq [of pd snippets h bp s] by simp
  note ent = platform_results_entries [OF run assms(2)]
  from ent have ins: "\<forall>uid pd. (uid, pd) \<in> set platforms \<longrightarrow>
            (\<forall>e. wizard_outcome h bp pd = Inl (IOError e) \<longrightarrow>
                   failed_wizard uid e \<in> set (fst (snd (process_platform h data bp s))) \<and>
                   map_of rv uid = map_of [] uid) \<and>
            (\<forall>body. wizard_outcome h bp pd = Inr body \<longrightarrow>
                   map_of rv uid = Some (platform_entry_of h data bp uid pd body))"
    by (elim conjE)
  from ins mem o have r: "failed_wizard uid e \<in> set (fst (snd (process_platform h data bp s))) \<and>
                   map_of rv uid = map_of [] uid"
    by simp
  from r show "map_of rv uid = None" by simp
  from r show "''Failed to build wizard '' @ [CHR 0x22] @ uid @ [CHR 0x22] @ '' ('' @ e @ '')''
                \<in> set (fst (snd (process_platform h data bp s)))"
    by (simp add: failed_wizard_def)
next
  fix rv uid pd snippets body
  assume a: "fst (process_platform h data bp s) = Inr rv \<and> (uid, pd) \<in> set platforms \<and>
            pd_wizard pd = Some snippets \<and>
            fst (build_wizard_section h bp snippets s) = Inr body"
  then have run: "platform_results h data bp platforms [] [] =
      (Inr rv, fst (snd (process_platform h data bp s)))"
    by (simp add: process_platform_results [OF assms(1), of h bp s])
  from a have mem: "(uid, pd) \<in> set platforms" by (elim conjE)
  from a have o: "wizard_outcome h bp pd = Inr body"
    using wizard_outcome_eq [of pd snippets h bp s] by simp
  note ent = platform_results_entries [OF run assms(2)]
  from ent have ins: "\<forall>uid pd. (uid, pd) \<in> set platforms \<longrightarrow>
            (\<forall>e. wizard_outcome h bp pd = Inl (IOError e) \<longrightarrow>
                   failed_wizard uid e \<in> set (fst (snd (process_platform h data bp s))) \<and>
                   map_of rv uid = map_of [] uid) \<and>
            (\<forall>body. wizard_outcome h bp pd = Inr body \<longrightarrow>
                   map_of rv uid = Some (platform_entry_of h data bp uid pd body))"
    by (elim conjE)
  from ins mem o have "map_of rv uid = Some (platform_entry_of h data bp uid pd body)"
    by simp
  then show "map_of rv uid =
                Some \<lparr>pf_name = (if pd_name pd = None \<or> pd_name pd = Some [] then str_title h uid
                                  else the (pd_name pd)),
                      pf_type = (if pd_type pd = None \<or> pd_type pd = Some [] then ''generic''
                                  else the (pd_type pd)),
                      pf_doc_link = map_option
                        (\<lambda>l. urljoin h ''https://docs.getsentry.com/hosted/''
                               (posixpath_join bp l))
                        (pd_doc_link pd),
                      pf_support_level = cfg_support_level data,
                      pf_body = body\<rparr>"
    unfolding platform_entry_of_fields .
next
  assume a: "\<forall>uid pd. (uid, pd) \<in> set platforms \<longrightarrow>
             (\<exists>snippets. pd_wizard pd = Some snippets \<and>
                ((\<exists>body. fst (build_wizard_section h bp snippets s) = Inr body) \<or>
                 (\<exists>e. fst (build_wizard_section h bp snippets s) = Inl (IOError e))))"
  have "\<forall>uid pd. (uid, pd) \<in> set platforms \<longrightarrow>
             (\<exists>body. wizard_outcome h bp pd = Inr body) \<or>
             (\<exists>e. wizard_outcome h bp pd = Inl (IOError e))"
  proof (intro allI impI)
    fix uid pd assume "(uid, pd) \<in> set platforms"
    with a obtain snippets where w: "pd_wizard pd = Some snippets"
      and r: "(\<exists>body. fst (build_wizard_section h bp snippets s) = Inr body) \<or>
                 (\<exists>e. fst (build_wizard_section h bp snippets s) = Inl (IOError e))"
      by meson
    from r show "(\<exists>body. wizard_outcome h bp pd = Inr body) \<or>
             (\<exists>e. wizard_outcome h bp pd = Inl (IOError e))"
      unfolding wizard_outcome_eq [OF w] .
  qed
  from platform_results_returns [OF this, of data "[]" "[]"]
  show "\<exists>rv. fst (process_platform h data bp s) = Inr rv"
    by (simp add: process_platform_results [OF assms(1), of h bp s])
next
  fix pre uid pd post snippets e
  assume a: "platforms = pre @ (uid, pd) # post \<and> pd_wizard pd = Some snippets \<and>
            fst (build_wizard_section h bp snippets s) = Inl (IOError e)"
  then have o: "wizard_outcome h bp pd = Inl (IOError e)"
    using wizard_outcome_eq [of pd snippets h bp s] by simp
  from a have p: "platforms = pre @ (uid, pd) # post" by (elim conjE)
  have c': "cfg_platforms (data\<lparr>cfg_platforms := Some (pre @ post)\<rparr>) = Some (pre @ post)"
    by simp
  have "fst (process_platform h data bp s) = fst (platform_results h data bp platforms [] [])"
    by (simp add: process_platform_results [OF assms(1), of h bp s])
  also have "\<dots> = fst (platform_results h data bp (pre @ post) [] [])"
    unfolding p by (rule platform_results_without [OF o])
  also have "\<dots> = fst (platform_results h (data\<lparr>cfg_platforms := Some (pre @ post)\<rparr>) bp
                        (pre @ post) [] [])"
    by (simp add: platform_results_data)
  also have "\<dots> = fst (process_platform h (data\<lparr>cfg_platforms := Some (pre @ post)\<rparr>) bp s)"
    by (simp add: process_platform_results [OF c', of h bp s])
  finally show "fst (process_platform h data bp s) =
              fst (process_platform h (data\<lparr>cfg_platforms := Some (pre @ post)\<rparr>) bp s)" .
qed

theorem process_platform_skips_missing_wizard_witness:
  "fst (build_wizard_section
     \<lparr>get_and_resolve_doctree =
        (\<lambda>d. if d = ''docs/index'' then Inr [Section [''install''] ''pip install'']
             else Inl (IOError ''No such file'')),
      docwriter_fragment = (\<lambda>d n. Inr (sect_source n)),
      str_title = (\<lambda>u. u), urljoin = (\<lambda>a b. a @ b)\<rparr>
     ''docs'' ([''index#install''] @ ''missing'' # [''index''])
     \<lparr>build_wizard_fragment = False, initial_header_level = 1, formatter_args = [],
      current_docname = ''''\<rparr>) = Inl (IOError ''No such file'') \<and>
   ''Failed to build wizard '' @ [CHR 0x22] @ ''ruby'' @ [CHR 0x22] @ '' ('' @ ''No such file'' @ '')''
     \<in> set (fst (snd (process_platform
     \<lparr>get_and_resolve_doctree =
        (\<lambda>d. if d = ''docs/index'' then Inr [Section [''install''] ''pip install'']
             else Inl (IOError ''No such file'')),
      docwriter_fragment = (\<lambda>d n. Inr (sect_source n)),
      str_title = (\<lambda>u. u), urljoin = (\<lambda>a b. a @ b)\<rparr>
     \<lparr>cfg_platforms = Some
        [(''ruby'', \<lparr>pd_wizard = Some [''missing''], pd_doc_link = None, pd_name = None,
                    pd_type = None\<rparr>),
         (''python'', \<lparr>pd_wizard = Some [''index#install''], pd_doc_link = Some ''index'',
                      pd_name = Some ''Python'', pd_type = None\<rparr>)],
      cfg_support_level = Some ''production'', cfg_vars = None\<rparr>
     ''docs''
     \<lparr>build_wizard_fragment = False, initial_header_level = 1, formatter_args = [],
      current_docname = ''''\<rparr>))) \<and>
   map_of [(''python'', \<lparr>pf_name = ''Python'', pf_type = ''generic'',
                         pf_doc_link = Some ''https://docs.getsentry.com/hosted/docs/index'',
                         pf_support_level = Some ''production'', pf_body = ''pip install''\<rparr>)]
     ''ruby'' = None \<and>
   fst (process_platform
     \<lparr>get_and_resolve_doctree =
        (\<lambda>d. if d = ''docs/index'' then Inr [Section [''install''] ''pip install'']
             else Inl (IOError ''No such file'')),
      docwriter_fragment = (\<lambda>d n. Inr (sect_source n)),
      str_title = (\<lambda>u. u), urljoin = (\<lambda>a b. a @ b)\<rparr>
     \<lparr>cfg_platforms = Some
        [(''ruby'', \<lparr>pd_wizard = Some [''missing''], pd_doc_link = None, pd_name = None,
                    pd_type = None\<rparr>),
         (''python'', \<lparr>pd_wizard = Some [''index#install''], pd_doc_link = Some ''index'',
                      pd_name = Some ''Python'', pd_type = None\<rparr>)],
      cfg_support_level = Some ''production'', cfg_vars = None\<rparr>
     ''docs''
     \<lparr>build_wizard_fragment = False, initial_header_level = 1, formatter_args = [],
      current_docname = ''''\<rparr>) =
   Inr [(''python'', \<lparr>pf_name = ''Python'', pf_type = ''generic'',
                        pf_doc_link = Some ''https://docs.getsentry.com/hosted/docs/index'',
                        pf_support_level = Some ''production'', pf_body = ''pip install''\<rparr>)]"
proof -
  let ?h = "\<lparr>get_and_resolve_doctree =
        (\<lambda>d. if d = ''docs/index'' then Inr [Section [''install''] ''pip install'']
             else Inl (IOError ''No such file'')),
      docwriter_fragment = (\<lambda>d n. Inr (sect_source n)),
      str_title = (\<lambda>u. u), urljoin = (\<lambda>a b. a @ b)\<rparr>"
  let ?ruby = "\<lparr>pd_wizard = Some [''missing''], pd_doc_link = None, pd_name = None,
                    pd_type = None\<rparr>"
  let ?python = "\<lparr>pd_wizard = Some [''index#install''], pd_doc_link = Some ''index'',
                      pd_name = Some ''Python'', pd_type = None\<rparr>"
  let ?P = "[(''ruby'', ?ruby), (''python'', ?python)]"
  let ?data = "\<lparr>cfg_platforms = Some ?P, cfg_support_level = Some ''production'',
      cfg_vars = None\<rparr>"
  let ?s = "\<lparr>build_wizard_fragment = False, initial_header_level = 1, formatter_args = [],
      current_docname = ''''\<rparr>"
  let ?rv = "[(''python'', \<lparr>pf_name = ''Python'', pf_type = ''generic'',
                        pf_doc_link = Some ''https://docs.getsentry.com/hosted/docs/index'',
                        pf_support_level = Some ''production'', pf_body = ''pip install''\<rparr>)]"
  have c: "cfg_platforms ?data = Some ?P" by simp
  have d: "distinct (map fst ?P)" by simp
  note t = process_platform_skips_missing_wizard [OF c d, of ?h "''docs''" ?s]
  have join1: "posixpath_join ''docs'' ''index'' = ''docs/index''"
    by (simp add: posixpath_join_def)
  have join2: "posixpath_join ''docs'' ''missing'' = ''docs/missing''"
    by (simp add: posixpath_join_def)
  have built: "fst (build_wizard_section ?h ''docs'' [''index#install''] ?s) = Inr ''pip install''"
    by (simp add: build_wizard_section_def build_snippet_def split_snippet_def split_once_def
          fetch_doctree_def join1 build_node_def Let_def)
  have missing: "get_and_resolve_doctree ?h
      (posixpath_join ''docs'' (takeWhile (\<lambda>c. c \<noteq> CHR ''#'') ''missing'')) =
        Inl (IOError ''No such file'')"
    by (simp add: join2)
  from built missing have pa:
    "(\<exists>body. fst (build_wizard_section ?h ''docs'' [''index#install''] ?s) = Inr body) \<and>
     get_and_resolve_doctree ?h
      (posixpath_join ''docs'' (takeWhile (\<lambda>c. c \<noteq> CHR ''#'') ''missing'')) =
        Inl (IOError ''No such file'')"
    by (intro conjI exI)
  note ra = t [THEN conjunct1, rule_format, OF pa, of "[''index'']"]
  from ra have r1: "fst (build_wizard_section ?h ''docs''
      ([''index#install''] @ ''missing'' # [''index'']) ?s) = Inl (IOError ''No such file'')"
    by (elim conjE)
  have fails: "fst (build_wizard_section ?h ''docs'' [''missing''] ?s) =
      Inl (IOError ''No such file'')"
    by (simp add: build_wizard_section_def build_snippet_def split_snippet_def
          fetch_doctree_def join2 Let_def)
  have run: "fst (process_platform ?h ?data ''docs'' ?s) = Inr ?rv"
    by (simp add: process_platform_def build_wizard_section_def build_snippet_def
          split_snippet_def split_once_def fetch_doctree_def join1 join2 build_node_def Let_def
          platform_entry_of_def EXTERNAL_DOCS_URL_def)
  have mem: "(''ruby'', ?ruby) \<in> set ?P" by simp
  have wiz: "pd_wizard ?ruby = Some [''missing'']" by simp
  from run mem wiz fails have pb:
    "fst (process_platform ?h ?data ''docs'' ?s) = Inr ?rv \<and> (''ruby'', ?ruby) \<in> set ?P \<and>
     pd_wizard ?ruby = Some [''missing''] \<and>
     fst (build_wizard_section ?h ''docs'' [''missing''] ?s) = Inl (IOError ''No such file'')"
    by (intro conjI)
  note rb = t [THEN conjunct2, THEN conjunct1, rule_format, OF pb]
  from rb have r2: "map_of ?rv ''ruby'' = None" by (elim conjE)
  from rb have r3: "''Failed to build wizard '' @ [CHR 0x22] @ ''ruby'' @ [CHR 0x22] @ '' ('' @
      ''No such file'' @ '')'' \<in> set (fst (snd (process_platform ?h ?data ''docs'' ?s)))"
    by (elim conjE)
  show ?thesis by (intro conjI r1 r3 r2 run)
qed

section \<open>Editions and variables: \<^verbatim>\<open>preprocess_source\<close>\<close>

text \<open>
  \<^verbatim>\<open>
  _edition_re = re.compile(r'^(\s*)..\s+sentry:edition::\s*(.*?)$')
  _docedition_re = re.compile(r'^..\s+sentry:docedition::\s*(.*?)$')
  _var_re = re.compile(r'###([a-zA-Z0-9_]+)###')

  def preprocess_source(app, docname, source):
      cfg = find_config(app.env.doc2path(docname), app.builder.srcdir)
      source_lines = source[0].splitlines()

      def _find_block(indent, lineno):
          block_indent = len(indent.expandtabs())
          rv = []
          actual_indent = None

          while lineno < end:
              line = source_lines[lineno]
              if not line.strip():
                  rv.append(u'')
              else:
                  expanded_line = line.expandtabs()
                  indent = len(expanded_line) - len(expanded_line.lstrip())
                  if indent > block_indent:
                      if actual_indent is None or indent < actual_indent:
                          actual_indent = indent
                      rv.append(line)
                  else:
                      break
              lineno += 1

          if rv:
              rv.append(u'')
              if actual_indent:
                  rv = [x[actual_indent:] for x in rv]
          return rv, lineno

      def _expand_vars(line):
          def _handle_match(match):
              key = match.group(1)
              return (cfg.get('vars') or {}).get(key) or u''
          return _var_re.sub(_handle_match, line)

      result = []

      lineno = 0
      end = len(source_lines)
      while lineno < end:
          line = source_lines[lineno]
          line = _expand_vars(line)
          match = _edition_re.match(line)
          if match is None:
              # Skip sentry:docedition.  We don't want those.
              match = _docedition_re.match(line)
              if match is None:
                  result.append(line)
              lineno += 1
              continue
          lineno += 1
          indent, tags = match.groups()
          tags = set(x.strip() for x in tags.split(',') if x.strip())
          should_include = app.env.config.sentry_doc_variant in tags
          block_lines, lineno = _find_block(indent, lineno)
          if should_include:
              result.extend(block_lines)

      source[:] = [u'\n'.join(result)]
  \<close>
  The text is a unicode string of Python 2; the model has the characters below 256. The
  string methods are written out as the library has them: \<^verbatim>\<open>strip\<close> and \<^verbatim>\<open>lstrip\<close> take
  off the unicode whitespace, \<^verbatim>\<open>expandtabs\<close> fills up to the next column that is a
  multiple of 8, \<^verbatim>\<open>splitlines\<close> breaks at the unicode line breaks and \<^verbatim>\<open>split(',')\<close> at
  every comma. In a pattern compiled without flags \<^verbatim>\<open>\s\<close> is one of the six ASCII
  whitespace characters.
\<close>

datatype pyval = PyNone | PyStr string | PyList "pyval list"

definition py_isspace :: "char \<Rightarrow> bool" where
  "py_isspace c \<longleftrightarrow>
     (let n = (of_char c :: nat)
      in (9 \<le> n \<and> n \<le> 13) \<or> (28 \<le> n \<and> n \<le> 32) \<or> n = 133 \<or> n = 160)"

definition re_space :: "char \<Rightarrow> bool" where
  "re_space c \<longleftrightarrow> (let n = (of_char c :: nat) in (9 \<le> n \<and> n \<le> 13) \<or> n = 32)"

definition is_linebreak :: "char \<Rightarrow> bool" where
  "is_linebreak c \<longleftrightarrow>
     (let n = (of_char c :: nat) in (10 \<le> n \<and> n \<le> 13) \<or> (28 \<le> n \<and> n \<le> 30) \<or> n = 133)"

definition lstrip :: "string \<Rightarrow> string" where
  "lstrip s = dropWhile py_isspace s"

definition strip :: "string \<Rightarrow> string" where
  "strip s = rev (dropWhile py_isspace (rev (dropWhile py_isspace s)))"

fun expandtabs_from :: "nat \<Rightarrow> string \<Rightarrow> string" where
  "expandtabs_from j [] = []"
| "expandtabs_from j (c # cs) =
     (if c = CHR 0x09
      then replicate (8 - j mod 8) (CHR '' '') @ expandtabs_from (j + (8 - j mod 8)) cs
      else c # expandtabs_from (if c = CHR 0x0A \<or> c = CHR 0x0D then 0 else Suc j) cs)"

definition expandtabs :: "string \<Rightarrow> string" where
  "expandtabs s = expandtabs_from 0 s"

fun splitlines_from :: "string \<Rightarrow> bool \<Rightarrow> string \<Rightarrow> string list" where
  "splitlines_from cur after_cr [] = (if cur = [] then [] else [cur])"
| "splitlines_from cur after_cr (c # cs) =
     (if after_cr \<and> c = CHR 0x0A then splitlines_from cur False cs
      else if is_linebreak c then cur # splitlines_from [] (c = CHR 0x0D) cs
      else splitlines_from (cur @ [c]) False cs)"

definition splitlines :: "string \<Rightarrow> string list" where
  "splitlines s = splitlines_from [] False s"

fun split_from :: "char \<Rightarrow> string \<Rightarrow> string \<Rightarrow> string list" where
  "split_from sep cur [] = [cur]"
| "split_from sep cur (c # cs) =
     (if c = sep then cur # split_from sep [] cs else split_from sep (cur @ [c]) cs)"

definition split_on :: "char \<Rightarrow> string \<Rightarrow> string list" where
  "split_on sep s = split_from sep [] s"

text \<open>
  The three patterns, on a line: a line has no line break in it, so that \<^verbatim>\<open>.\<close> matches
  every character of it and \<^verbatim>\<open>$\<close> its end only, and the lazy last group is the rest of
  the line. \<open>edition_at k\<close> is the match in which the first group takes \<open>k\<close> characters;
  the group is greedy, so the match is the one with the largest such \<open>k\<close>.
\<close>

definition edition_at :: "nat \<Rightarrow> string \<Rightarrow> (string \<times> string) option" where
  "edition_at k line =
     (case drop k line of
        c1 # c2 # r \<Rightarrow>
          if r \<noteq> [] \<and> re_space (hd r) \<and> prefix ''sentry:edition::'' (dropWhile re_space r)
          then Some (take k line,
                     dropWhile re_space
                       (drop (length ''sentry:edition::'') (dropWhile re_space r)))
          else None
      | _ \<Rightarrow> None)"

fun edition_upto :: "nat \<Rightarrow> string \<Rightarrow> (string \<times> string) option" where
  "edition_upto 0 line = edition_at 0 line"
| "edition_upto (Suc k) line =
     (case edition_at (Suc k) line of
        Some groups \<Rightarrow> Some groups
      | None \<Rightarrow> edition_upto k line)"

definition edition_re_match :: "string \<Rightarrow> (string \<times> string) option" where
  "edition_re_match line = edition_upto (length (takeWhile re_space line)) line"

definition docedition_re_match :: "string \<Rightarrow> bool" where
  "docedition_re_match line =
     (case line of
        c1 # c2 # r \<Rightarrow>
          r \<noteq> [] \<and> re_space (hd r) \<and> prefix ''sentry:docedition::'' (dropWhile re_space r)
      | _ \<Rightarrow> False)"

definition var_char :: "char \<Rightarrow> bool" where
  "var_char c \<longleftrightarrow>
     (let n = (of_char c :: nat)
      in (97 \<le> n \<and> n \<le> 122) \<or> (65 \<le> n \<and> n \<le> 90) \<or> (48 \<le> n \<and> n \<le> 57) \<or> n = 95)"

definition handle_match :: "'x sidecar_scheme option \<Rightarrow> string \<Rightarrow> exn + string" where
  "handle_match cfg key =
     (case cfg of
        None \<Rightarrow>
          Inl (AttributeError
                 ([CHR 0x27] @ ''NoneType'' @ [CHR 0x27] @ '' object has no attribute '' @
                  [CHR 0x27] @ ''get'' @ [CHR 0x27]))
      | Some c \<Rightarrow>
          Inr (case map_of (case cfg_vars c of None \<Rightarrow> [] | Some vars \<Rightarrow> vars) key of
                 None \<Rightarrow> []
               | Some v \<Rightarrow> v))"

function expand_vars :: "'x sidecar_scheme option \<Rightarrow> string \<Rightarrow> exn + string" where
  "expand_vars cfg [] = Inr []"
| "expand_vars cfg (c # cs) =
     (let key = takeWhile var_char (drop 3 (c # cs));
          after = dropWhile var_char (drop 3 (c # cs))
      in if prefix ''###'' (c # cs) \<and> key \<noteq> [] \<and> prefix ''###'' after
         then (case handle_match cfg key of
                 Inl e \<Rightarrow> Inl e
               | Inr v \<Rightarrow>
                   (case expand_vars cfg (drop 3 after) of
                      Inl e \<Rightarrow> Inl e
                    | Inr rest \<Rightarrow> Inr (v @ rest)))
         else (case expand_vars cfg cs of
                 Inl e \<Rightarrow> Inl e
               | Inr rest \<Rightarrow> Inr (c # rest)))"
  by pat_completeness auto
termination
proof (relation "measure (\<lambda>(cfg, s). length s)")
  show "wf (measure (\<lambda>(cfg, s). length s))" by simp
next
  fix cfg :: "'x sidecar_scheme option" and c :: char and cs x xa
  assume "xa = dropWhile var_char (drop 3 (c # cs))"
  have "length (dropWhile var_char (drop 3 (c # cs))) \<le> length (drop 3 (c # cs))"
    by (rule length_dropWhile_le)
  then have "length (drop 3 (dropWhile var_char (drop 3 (c # cs)))) < length (c # cs)"
    by simp
  then show "((cfg, drop 3 xa), (cfg, c # cs)) \<in> measure (\<lambda>(cfg, s). length s)"
    using \<open>xa = dropWhile var_char (drop 3 (c # cs))\<close> by simp
next
  fix cfg :: "'x sidecar_scheme option" and c :: char and cs
  show "((cfg, cs), (cfg, c # cs)) \<in> measure (\<lambda>(cfg, s). length s)" by simp
qed

declare expand_vars.simps [simp del]

text \<open>
  \<^verbatim>\<open>_find_block\<close>, on the lines from \<^verbatim>\<open>lineno\<close> on: the loop returns the lines of the
  block, the smallest indentation met and the number of lines it went over.
\<close>

fun find_block_loop ::
  "nat \<Rightarrow> string list \<Rightarrow> string list \<Rightarrow> nat option \<Rightarrow> nat \<Rightarrow> string list \<times> nat option \<times> nat"
where
  "find_block_loop block_indent [] rv actual_indent lineno = (rv, actual_indent, lineno)"
| "find_block_loop block_indent (line # lines) rv actual_indent lineno =
     (if strip line = []
      then find_block_loop block_indent lines (rv @ [[]]) actual_indent (Suc lineno)
      else
        let expanded_line = expandtabs line;
            indent = length expanded_line - length (lstrip expanded_line)
        in if indent > block_indent
           then find_block_loop block_indent lines (rv @ [line])
                  (case actual_indent of
                     None \<Rightarrow> Some indent
                   | Some a \<Rightarrow> if indent < a then Some indent else Some a)
                  (Suc lineno)
           else (rv, actual_indent, lineno))"

definition find_block :: "string \<Rightarrow> string list \<Rightarrow> string list \<times> nat" where
  "find_block indent lines =
     (let block_indent = length (expandtabs indent)
      in case find_block_loop block_indent lines [] None 0 of
           (rv, actual_indent, lineno) \<Rightarrow>
             (if rv \<noteq> []
              then (case actual_indent of
                      None \<Rightarrow> rv @ [[]]
                    | Some a \<Rightarrow> if a \<noteq> 0 then map (drop a) (rv @ [[]]) else rv @ [[]])
              else rv,
              lineno))"

definition tag_list :: "string \<Rightarrow> string list" where
  "tag_list tags = filter (\<lambda>x. x \<noteq> []) (map strip (split_on (CHR '','') tags))"

definition should_include :: "pyval \<Rightarrow> string list \<Rightarrow> exn + bool" where
  "should_include variant tags =
     (case variant of
        PyNone \<Rightarrow> Inr False
      | PyStr v \<Rightarrow> Inr (v \<in> set tags)
      | PyList vs \<Rightarrow>
          Inl (TypeError (''unhashable type: '' @ [CHR 0x27] @ ''list'' @ [CHR 0x27])))"

function preprocess_loop ::
  "'x sidecar_scheme option \<Rightarrow> pyval \<Rightarrow> string list \<Rightarrow> string list \<Rightarrow> exn + string list"
where
  "preprocess_loop cfg variant [] result = Inr result"
| "preprocess_loop cfg variant (line # lines) result =
     (case expand_vars cfg line of
        Inl e \<Rightarrow> Inl e
      | Inr expanded \<Rightarrow>
          (case edition_re_match expanded of
             None \<Rightarrow>
               if docedition_re_match expanded
               then preprocess_loop cfg variant lines result
               else preprocess_loop cfg variant lines (result @ [expanded])
           | Some (indent, tags) \<Rightarrow>
               (case should_include variant (tag_list tags) of
                  Inl e \<Rightarrow> Inl e
                | Inr include \<Rightarrow>
                    preprocess_loop cfg variant (drop (snd (find_block indent lines)) lines)
                      (if include then result @ fst (find_block indent lines) else result))))"
  by pat_completeness auto
termination
  by (relation "measure (\<lambda>(cfg, variant, lines, result). length lines)") simp_all

declare preprocess_loop.simps [simp del]

definition preprocess_text ::
  "'x sidecar_scheme option \<Rightarrow> pyval \<Rightarrow> string \<Rightarrow> exn + string" where
  "preprocess_text cfg variant source =
     (case preprocess_loop cfg variant (splitlines source) [] of
        Inl e \<Rightarrow> Inl e
      | Inr result \<Rightarrow> Inr (str_join [CHR 0x0A] result))"

definition preprocess_source ::
  "'x sidecar_scheme filesystem \<Rightarrow> path option \<Rightarrow> path option \<Rightarrow> pyval \<Rightarrow> string \<Rightarrow>
   exn + string"
where
  "preprocess_source fs doc_path srcdir variant source =
     (case find_config fs doc_path srcdir of
        Inl e \<Rightarrow> Inl e
      | Inr cfg \<Rightarrow> preprocess_text cfg variant source)"

text \<open>
  \<^verbatim>\<open>
  def activate():
      frm = sys._getframe(1)
      globs = frm.f_globals

      globs.setdefault('sentry_doc_variant',
                       os.environ.get('SENTRY_DOC_VARIANT', 'self'))
      globs['extensions'] = list(globs.get('extensions') or ()) + ['sentryext']
      globs['primary_domain'] = 'std'
      globs['exclude_patterns'] = list(globs.get('exclude_patterns')
                                       or ()) + ['_sentryext']
  \<close>
  \<open>globs\<close> is the namespace of the configuration file that calls \<^verbatim>\<open>activate\<close>, and the
  environment maps the names of the variables that are set to their values. The host
  reads a configuration value from that namespace and takes the default given to
  \<^verbatim>\<open>add_config_value\<close>, here \<^verbatim>\<open>None\<close>, for a name that the namespace does not define.
\<close>

definition py_truthy :: "pyval \<Rightarrow> bool" where
  "py_truthy v = (case v of PyNone \<Rightarrow> False | PyStr s \<Rightarrow> s \<noteq> [] | PyList xs \<Rightarrow> xs \<noteq> [])"

definition py_list :: "pyval \<Rightarrow> pyval list" where
  "py_list v = (case v of PyNone \<Rightarrow> [] | PyStr s \<Rightarrow> map (\<lambda>c. PyStr [c]) s | PyList xs \<Rightarrow> xs)"

definition list_or_empty :: "pyval option \<Rightarrow> pyval list" where
  "list_or_empty v =
     (case v of None \<Rightarrow> [] | Some x \<Rightarrow> if py_truthy x then py_list x else [])"

definition activate :: "(string \<rightharpoonup> pyval) \<Rightarrow> (string \<rightharpoonup> string) \<Rightarrow> (string \<rightharpoonup> pyval)" where
  "activate globs environ =
     (let globs1 =
            (case globs ''sentry_doc_variant'' of
               None \<Rightarrow>
                 globs(''sentry_doc_variant'' \<mapsto>
                   PyStr (case environ ''SENTRY_DOC_VARIANT'' of
                            None \<Rightarrow> ''self''
                          | Some v \<Rightarrow> v))
             | Some v \<Rightarrow> globs);
          globs2 = globs1(''extensions'' \<mapsto>
                     PyList (list_or_empty (globs1 ''extensions'') @ [PyStr ''sentryext'']));
          globs3 = globs2(''primary_domain'' \<mapsto> PyStr ''std'')
      in globs3(''exclude_patterns'' \<mapsto>
           PyList (list_or_empty (globs3 ''exclude_patterns'') @ [PyStr ''_sentryext''])))"

definition config_sentry_doc_variant :: "(string \<rightharpoonup> pyval) \<Rightarrow> pyval" where
  "config_sentry_doc_variant globs =
     (case globs ''sentry_doc_variant'' of None \<Rightarrow> PyNone | Some v \<Rightarrow> v)"

subsection \<open>Absent configuration\<close>

text \<open>
  C4. A document below the project root \<^verbatim>\<open>docs\<close> with no \<^verbatim>\<open>sentry-doc-config.json\<close>
  on the way up: \<open>find_config\<close> returns \<^verbatim>\<open>None\<close>, and the line
  \<^verbatim>\<open>Install ###name### now\<close> makes \<^verbatim>\<open>_handle_match\<close> call \<^verbatim>\<open>cfg.get\<close> on it: the
  preprocessing raises \<open>AttributeError\<close> instead of putting the empty string for the
  placeholder. With a configuration that has no \<^verbatim>\<open>vars\<close> section the placeholder does
  become the empty string, and a configuration without \<^verbatim>\<open>platforms\<close> gives the empty
  platform mapping.
\<close>

theorem expand_vars_without_config_raises:
  "find_config
     (map_of
        [([], Dir), ([''docs''], Dir), ([''docs'', ''intro''], Dir),
         ([''docs'', ''intro'', ''index.rst''], File (Inl (ValueError ''No JSON'')))])
     (Some [''docs'', ''intro'', ''index.rst'']) (Some [''docs'']) =
     Inr (None :: sidecar option) \<and>
   preprocess_source
     (map_of
        [([], Dir), ([''docs''], Dir), ([''docs'', ''intro''], Dir),
         ([''docs'', ''intro'', ''index.rst''],
          File (Inl (ValueError ''No JSON'') :: exn + sidecar))])
     (Some [''docs'', ''intro'', ''index.rst'']) (Some [''docs'']) (PyStr ''self'')
     ''Install ###name### now'' =
     (Inl (AttributeError
             ([CHR 0x27] @ ''NoneType'' @ [CHR 0x27] @ '' object has no attribute '' @
              [CHR 0x27] @ ''get'' @ [CHR 0x27])) :: exn + string) \<and>
   preprocess_text
     (Some \<lparr>cfg_platforms = None, cfg_support_level = Some ''production'', cfg_vars = None\<rparr>)
     (PyStr ''self'') ''Install ###name### now'' = Inr ''Install  now'' \<and>
   fst (process_platform
     \<lparr>get_and_resolve_doctree = (\<lambda>d. Inl (IOError ''No such file'')),
      docwriter_fragment = (\<lambda>d n. Inr (sect_source n)),
      str_title = (\<lambda>u. u), urljoin = (\<lambda>a b. a @ b)\<rparr>
     \<lparr>cfg_platforms = None, cfg_support_level = Some ''production'', cfg_vars = None\<rparr>
     ''docs''
     \<lparr>build_wizard_fragment = False, initial_header_level = 1, formatter_args = [],
      current_docname = ''''\<rparr>) = Inr []"
proof (intro conjI)
  let ?fs = "map_of
        [([], Dir), ([''docs''], Dir), ([''docs'', ''intro''], Dir),
         ([''docs'', ''intro'', ''index.rst''],
          File (Inl (ValueError ''No JSON'') :: exn + sidecar))]"
  show none: "find_config ?fs (Some [''docs'', ''intro'', ''index.rst'']) (Some [''docs'']) =
      Inr None"
    by (simp add: find_config_def find_config_loop.simps samefile_def isfile_def path_join_def
        config_name_def dirname_def json_load_def)
  have line: "splitlines ''Install ###name### now'' = [''Install ###name### now'']"
    by (simp add: splitlines_def is_linebreak_def)
  have key: "takeWhile var_char ''name### now'' = ''name''"
    and after: "dropWhile var_char ''name### now'' = ''### now''"
    by (simp_all add: var_char_def)
  have raise: "expand_vars (None :: sidecar option) ''Install ###name### now'' =
      Inl (AttributeError
             ([CHR 0x27] @ ''NoneType'' @ [CHR 0x27] @ '' object has no attribute '' @
              [CHR 0x27] @ ''get'' @ [CHR 0x27]))"
    by (simp add: expand_vars.simps key after handle_match_def var_char_def)
  show "preprocess_source ?fs (Some [''docs'', ''intro'', ''index.rst'']) (Some [''docs''])
      (PyStr ''self'') ''Install ###name### now'' =
     Inl (AttributeError
             ([CHR 0x27] @ ''NoneType'' @ [CHR 0x27] @ '' object has no attribute '' @
              [CHR 0x27] @ ''get'' @ [CHR 0x27]))"
    unfolding preprocess_source_def none
    by (simp add: preprocess_text_def line preprocess_loop.simps raise)
  let ?cfg = "\<lparr>cfg_platforms = None, cfg_support_level = Some ''production'', cfg_vars = None\<rparr>"
  have empty: "expand_vars (Some ?cfg) ''Install ###name### now'' = Inr ''Install  now''"
    by (simp add: expand_vars.simps key after handle_match_def var_char_def)
  have no_edition: "edition_re_match ''Install  now'' = None"
    by (simp add: edition_re_match_def edition_at_def re_space_def)
  have no_docedition: "\<not> docedition_re_match ''Install  now''"
    by (simp add: docedition_re_match_def re_space_def)
  show "preprocess_text (Some ?cfg) (PyStr ''self'') ''Install ###name### now'' =
      Inr ''Install  now''"
    by (simp add: preprocess_text_def line preprocess_loop.simps empty no_edition no_docedition)
  show "fst (process_platform
     \<lparr>get_and_resolve_doctree = (\<lambda>d. Inl (IOError ''No such file'')),
      docwriter_fragment = (\<lambda>d n. Inr (sect_source n)),
      str_title = (\<lambda>u. u), urljoin = (\<lambda>a b. a @ b)\<rparr>
     ?cfg ''docs''
     \<lparr>build_wizard_fragment = False, initial_header_level = 1, formatter_args = [],
      current_docname = ''''\<rparr>) = Inr []"
    by (simp add: process_platform_def)
qed

end
